theory Spec2Isabelle
  imports Main "HOL-Library.AList" "HOL-Library.Char_ord" "HOL-Library.List_Lexorder"
begin

section \<open>Data model (src/app/chat.tsx, interfaces Message and ChatRoomData)\<close>

text \<open>
  A timestamp field is written by the client as the \<^verbatim>\<open>serverTimestamp()\<close> placeholder and
  read back as a point in time once the backend has resolved it.
\<close>

datatype timestamp = ServerTimestamp | Millis nat

text \<open>
  The reaction map of a message is a JavaScript object from emoji to an array of user
  identifiers. It is kept as an association list: \<open>map_of\<close> is the lookup
  \<^verbatim>\<open>reactions[emoji]\<close>, and the keys are enumerated in list order.
\<close>

type_synonym reactionMap = "(string \<times> string list) list"

record Message =
  id_m :: string
  text_m :: string
  senderId :: string
  senderEmail :: "string option"
  timestamp :: timestamp
  read :: bool
  reactions :: "reactionMap option"

section \<open>Reconciler: the first \<^verbatim>\<open>onSnapshot\<close> callback of ChatScreen\<close>

text \<open>
  \<^verbatim>\<open>Array.prototype.findIndex\<close>: the index of the first element satisfying the predicate,
  or \<open>-1\<close> when there is none.
\<close>

fun findIndex :: "('a \<Rightarrow> bool) \<Rightarrow> 'a list \<Rightarrow> int" where
  "findIndex P [] = -1"
| "findIndex P (x # xs) =
     (if P x then 0
      else (let i = findIndex P xs in if i = -1 then -1 else i + 1))"

text \<open>
  The body of \<^verbatim>\<open>messageList.forEach((newMsg) => ...)\<close>: push the message when its identifier
  is unknown, overwrite the entry found otherwise.
\<close>

definition mergeStep :: "Message list \<Rightarrow> Message \<Rightarrow> Message list" where
  "mergeStep mergedMessages newMsg =
     (let existingIndex = findIndex (\<lambda>m. id_m m = id_m newMsg) mergedMessages
      in if existingIndex = -1 then mergedMessages @ [newMsg]
         else mergedMessages[nat existingIndex := newMsg])"

text \<open>
  The list handed to \<^verbatim>\<open>setMessages\<close>: the merge runs only when \<^verbatim>\<open>localMessages\<close> is
  non-empty; otherwise the snapshot's list is taken as it is.
\<close>

definition mergeMessages :: "Message list \<Rightarrow> Message list \<Rightarrow> Message list" where
  "mergeMessages localMessages messageList =
     (if length localMessages > 0 then foldl mergeStep localMessages messageList
      else messageList)"

text \<open>The part of the screen's React state that the modelled functions read or write.\<close>

record Screen =
  message :: string
  messages :: "Message list"
  loading :: bool
  sending :: bool
  localMessages :: "Message list"

datatype uiEffect = ScrollToEnd

text \<open>
  The whole callback: merge, \<^verbatim>\<open>setLoading(false)\<close>, and the scroll request, which is
  scheduled when the snapshot's own list is non-empty.
\<close>

definition onSnapshotMerge :: "Screen \<Rightarrow> Message list \<Rightarrow> Screen \<times> uiEffect list" where
  "onSnapshotMerge s messageList =
     (s\<lparr>messages := mergeMessages (localMessages s) messageList, loading := False\<rparr>,
      if length messageList > 0 then [ScrollToEnd] else [])"


section \<open>The hosted document store, as the client sees it\<close>

text \<open>
  The conversation summary document \<^verbatim>\<open>chatRooms/{chatId}\<close>. The code reads
  \<^verbatim>\<open>lastMessage\<close> and \<^verbatim>\<open>unreadCount\<close> with optional chaining, so both may be missing.
  Counters are JavaScript numbers holding integers.
\<close>

record LastMessage =
  text_lm :: string
  timestamp_lm :: timestamp
  senderId_lm :: string
  read_lm :: bool
  senderEmail_lm :: "string option"

record ChatRoomData =
  participants :: "string list"
  lastMessage :: "LastMessage option"
  unreadCount :: "(string \<rightharpoonup> int) option"
  createdAt :: timestamp

type_synonym path = "string list"

datatype request =
  GetDoc path | SetDoc path | UpdateDoc path | AddDoc path | BatchCommit "path list"

datatype error = BackendError | InvalidData

text \<open>
  The backend is an external service. Its operations are modelled by the effect the
  client relies on: point reads, point writes, updates of named fields of an existing
  document, appends with a generated identifier, and atomic batched updates.

  The store holds the summary documents and, per conversation, the message documents in
  the order of the \<^verbatim>\<open>orderBy('timestamp', 'asc')\<close> query. \<open>requests\<close> is the log of
  round trips made so far. \<open>faults\<close> scripts the outcome of the coming round trips, one
  flag per call, \<open>True\<close> for a call that is rejected; when the script is exhausted every
  call succeeds.
\<close>

record Firestore =
  chatRooms :: "string \<rightharpoonup> ChatRoomData"
  chatMessages :: "string \<Rightarrow> Message list"
  faults :: "bool list"
  requests :: "request list"

type_synonym 'a promise = "Firestore \<Rightarrow> (error + 'a) \<times> Firestore"

definition nextSucceeds :: "Firestore \<Rightarrow> bool" where
  "nextSucceeds db = (case faults db of [] \<Rightarrow> True | f # _ \<Rightarrow> \<not> f)"

definition roundTrip :: "request \<Rightarrow> Firestore \<Rightarrow> bool \<times> Firestore" where
  "roundTrip rq db =
     (nextSucceeds db, db\<lparr>faults := tl (faults db), requests := requests db @ [rq]\<rparr>)"

text \<open>\<^verbatim>\<open>await m\<close> followed by the rest of the \<^verbatim>\<open>try\<close> block; a rejection skips the rest.\<close>

definition await :: "'a promise \<Rightarrow> ('a \<Rightarrow> 'b promise) \<Rightarrow> 'b promise" where
  "await m f db = (case m db of (Inl e, db') \<Rightarrow> (Inl e, db') | (Inr x, db') \<Rightarrow> f x db')"

definition resolved :: "'a \<Rightarrow> 'a promise" where
  "resolved x db = (Inr x, db)"

definition rejected :: "error \<Rightarrow> 'a promise" where
  "rejected e db = (Inl e, db)"

definition roomPath :: "string \<Rightarrow> path" where
  "roomPath chatId = [''chatRooms'', chatId]"

definition messagesPath :: "string \<Rightarrow> path" where
  "messagesPath chatId = [''chatRooms'', chatId, ''messages'']"

definition messagePath :: "string \<Rightarrow> string \<Rightarrow> path" where
  "messagePath chatId messageId = [''chatRooms'', chatId, ''messages'', messageId]"

definition getDoc_room :: "string \<Rightarrow> (ChatRoomData option) promise" where
  "getDoc_room chatId db =
     (case roundTrip (GetDoc (roomPath chatId)) db of
        (True, db') \<Rightarrow> (Inr (chatRooms db' chatId), db')
      | (False, db') \<Rightarrow> (Inl BackendError, db'))"

definition setDoc_room :: "string \<Rightarrow> ChatRoomData \<Rightarrow> unit promise" where
  "setDoc_room chatId data db =
     (case roundTrip (SetDoc (roomPath chatId)) db of
        (True, db') \<Rightarrow> (Inr (), db'\<lparr>chatRooms := (chatRooms db')(chatId \<mapsto> data)\<rparr>)
      | (False, db') \<Rightarrow> (Inl BackendError, db'))"

text \<open>\<^verbatim>\<open>updateDoc\<close> rewrites the named fields of an existing document and is rejected when
  the document does not exist.\<close>

definition updateDoc_room :: "string \<Rightarrow> (ChatRoomData \<Rightarrow> ChatRoomData) \<Rightarrow> unit promise" where
  "updateDoc_room chatId patch db =
     (case roundTrip (UpdateDoc (roomPath chatId)) db of
        (True, db') \<Rightarrow>
          (case chatRooms db' chatId of
             None \<Rightarrow> (Inl BackendError, db')
           | Some room \<Rightarrow> (Inr (), db'\<lparr>chatRooms := (chatRooms db')(chatId \<mapsto> patch room)\<rparr>))
      | (False, db') \<Rightarrow> (Inl BackendError, db'))"

text \<open>\<^verbatim>\<open>addDoc\<close> stores the document under the identifier generated for it.\<close>

definition addDoc_message :: "string \<Rightarrow> Message \<Rightarrow> unit promise" where
  "addDoc_message chatId doc db =
     (case roundTrip (AddDoc (messagesPath chatId)) db of
        (True, db') \<Rightarrow>
          (Inr (), db'\<lparr>chatMessages := (chatMessages db')(chatId := chatMessages db' chatId @ [doc])\<rparr>)
      | (False, db') \<Rightarrow> (Inl BackendError, db'))"


definition patchMessages :: "string list \<Rightarrow> (Message \<Rightarrow> Message) \<Rightarrow> Message list \<Rightarrow> Message list" where
  "patchMessages ids patch ms = map (\<lambda>m. if id_m m \<in> set ids then patch m else m) ms"


text \<open>
  \<^verbatim>\<open>writeBatch(db)\<close>, one \<^verbatim>\<open>batch.update\<close> per identifier, \<^verbatim>\<open>batch.commit()\<close>: a single
  round trip that applies every update, or none of them when the call is rejected or one
  of the documents does not exist.
\<close>

definition commitBatch :: "string \<Rightarrow> string list \<Rightarrow> (Message \<Rightarrow> Message) \<Rightarrow> unit promise" where
  "commitBatch chatId ids patch db =
     (case roundTrip (BatchCommit (map (messagePath chatId) ids)) db of
        (True, db') \<Rightarrow>
          (if set ids \<subseteq> set (map id_m (chatMessages db' chatId))
           then (Inr (), db'\<lparr>chatMessages := (chatMessages db')
                   (chatId := patchMessages ids patch (chatMessages db' chatId))\<rparr>)
           else (Inl BackendError, db'))
      | (False, db') \<Rightarrow> (Inl BackendError, db'))"

section \<open>Session values and small helpers\<close>

record AuthUser =
  uid :: string
  email :: "string option"

text \<open>\<^verbatim>\<open>auth.currentUser?.uid\<close>.\<close>

definition currentUid :: "AuthUser option \<Rightarrow> string option" where
  "currentUid currentUser = map_option uid currentUser"

text \<open>Truthiness of a possibly undefined string: undefined and the empty string are falsy.\<close>

definition truthy :: "string option \<Rightarrow> bool" where
  "truthy v = (case v of None \<Rightarrow> False | Some s \<Rightarrow> s \<noteq> [])"

text \<open>
  \<^verbatim>\<open>String.prototype.trim\<close>. Text is held as the bytes of its UTF-8 encoding. The
  characters removed from both ends are those of ECMAScript's WhiteSpace and
  LineTerminator productions: U+0009 to U+000D and U+0020 (one byte each), U+00A0 (two
  bytes), and U+1680, U+2000 to U+200A, U+2028, U+2029, U+202F, U+205F, U+3000 and
  U+FEFF (three bytes each).
\<close>

definition isWhiteSpace1 :: "char \<Rightarrow> bool" where
  "isWhiteSpace1 a \<longleftrightarrow>
     a \<in> set [CHR 0x09, CHR 0x0A, CHR 0x0B, CHR 0x0C, CHR 0x0D, CHR 0x20]"

definition isWhiteSpace2 :: "char \<Rightarrow> char \<Rightarrow> bool" where
  "isWhiteSpace2 a b \<longleftrightarrow> [a, b] = [CHR 0xC2, CHR 0xA0]"

definition isWhiteSpace3 :: "char \<Rightarrow> char \<Rightarrow> char \<Rightarrow> bool" where
  "isWhiteSpace3 a b c \<longleftrightarrow>
     [a, b, c] \<in> set
       [[CHR 0xE1, CHR 0x9A, CHR 0x80],
        [CHR 0xE2, CHR 0x80, CHR 0x80], [CHR 0xE2, CHR 0x80, CHR 0x81],
        [CHR 0xE2, CHR 0x80, CHR 0x82], [CHR 0xE2, CHR 0x80, CHR 0x83],
        [CHR 0xE2, CHR 0x80, CHR 0x84], [CHR 0xE2, CHR 0x80, CHR 0x85],
        [CHR 0xE2, CHR 0x80, CHR 0x86], [CHR 0xE2, CHR 0x80, CHR 0x87],
        [CHR 0xE2, CHR 0x80, CHR 0x88], [CHR 0xE2, CHR 0x80, CHR 0x89],
        [CHR 0xE2, CHR 0x80, CHR 0x8A],
        [CHR 0xE2, CHR 0x80, CHR 0xA8], [CHR 0xE2, CHR 0x80, CHR 0xA9],
        [CHR 0xE2, CHR 0x80, CHR 0xAF],
        [CHR 0xE2, CHR 0x81, CHR 0x9F],
        [CHR 0xE3, CHR 0x80, CHR 0x80],
        [CHR 0xEF, CHR 0xBB, CHR 0xBF]]"

text \<open>White space removed from the front of the text.\<close>

fun trimStart :: "string \<Rightarrow> string" where
  "trimStart (a # b # c # s) =
     (if isWhiteSpace1 a then trimStart (b # c # s)
      else if isWhiteSpace2 a b then trimStart (c # s)
      else if isWhiteSpace3 a b c then trimStart s
      else a # b # c # s)"
| "trimStart [a, b] =
     (if isWhiteSpace1 a then trimStart [b]
      else if isWhiteSpace2 a b then []
      else [a, b])"
| "trimStart [a] = (if isWhiteSpace1 a then [] else [a])"
| "trimStart [] = []"

text \<open>
  White space removed from the end of the text; the argument and the result are the text
  reversed, so the last byte comes first.
\<close>

fun trimEndRev :: "string \<Rightarrow> string" where
  "trimEndRev (c # b # a # s) =
     (if isWhiteSpace1 c then trimEndRev (b # a # s)
      else if isWhiteSpace2 b c then trimEndRev (a # s)
      else if isWhiteSpace3 a b c then trimEndRev s
      else c # b # a # s)"
| "trimEndRev [b, a] =
     (if isWhiteSpace1 b then trimEndRev [a]
      else if isWhiteSpace2 a b then []
      else [b, a])"
| "trimEndRev [a] = (if isWhiteSpace1 a then [] else [a])"
| "trimEndRev [] = []"

definition trim :: "string \<Rightarrow> string" where
  "trim s = rev (trimEndRev (rev (trimStart s)))"

text \<open>
  \<^verbatim>\<open>[a, b].sort().join('_')\<close>: strings in ascending order, an undefined element after
  every string and printed as the empty string.
\<close>

definition chatIdOf :: "string option \<Rightarrow> string option \<Rightarrow> string" where
  "chatIdOf a b =
     (case (a, b) of
        (Some x, Some y) \<Rightarrow> (if y < x then y @ ''_'' @ x else x @ ''_'' @ y)
      | (Some x, None) \<Rightarrow> x @ ''_''
      | (None, Some y) \<Rightarrow> y @ ''_''
      | (None, None) \<Rightarrow> ''_'')"

section \<open>Send path\<close>

text \<open>
  \<^verbatim>\<open>{...chatRoomData.unreadCount, [userId]: (chatRoomData.unreadCount?.[userId] || 0) + 1}\<close>,
  the counter map written by both versions of \<^verbatim>\<open>sendMessage\<close>.
\<close>

definition spread :: "(string \<rightharpoonup> int) option \<Rightarrow> (string \<rightharpoonup> int)" where
  "spread obj = (case obj of None \<Rightarrow> Map.empty | Some m \<Rightarrow> m)"

definition currentUnreadCount :: "(string \<rightharpoonup> int) option \<Rightarrow> string \<Rightarrow> int" where
  "currentUnreadCount obj userId =
     (case obj of
        None \<Rightarrow> 0
      | Some m \<Rightarrow> (case m userId of None \<Rightarrow> 0 | Some n \<Rightarrow> if n = 0 then 0 else n))"

definition incrementedUnread :: "(string \<rightharpoonup> int) option \<Rightarrow> string \<Rightarrow> (string \<rightharpoonup> int)" where
  "incrementedUnread obj userId = (spread obj)(userId \<mapsto> currentUnreadCount obj userId + 1)"

text \<open>
  \<^verbatim>\<open>sendMessage\<close> of the first ChatScreen (chat.tsx, lines 143 to 206). \<open>sendSteps\<close> is
  the awaited part of its \<^verbatim>\<open>try\<close> block; \<open>autoId\<close> is the identifier \<^verbatim>\<open>addDoc\<close>
  generates for the new message document.
\<close>

definition sendSteps :: "AuthUser \<Rightarrow> string \<Rightarrow> string \<Rightarrow> string \<Rightarrow> unit promise" where
  "sendSteps user userId autoId msgText =
     (let chatId = chatIdOf (Some (uid user)) (Some userId) in
      await (getDoc_room chatId) (\<lambda>chatRoomDoc.
      await (case chatRoomDoc of
               None \<Rightarrow>
                 setDoc_room chatId
                   \<lparr>participants = [uid user, userId],
                    lastMessage =
                      Some \<lparr>text_lm = trim msgText, timestamp_lm = ServerTimestamp,
                            senderId_lm = uid user, read_lm = False, senderEmail_lm = None\<rparr>,
                    unreadCount = Some [userId \<mapsto> 1],
                    createdAt = ServerTimestamp\<rparr>
             | Some chatRoomData \<Rightarrow>
                 updateDoc_room chatId (\<lambda>room.
                   room\<lparr>unreadCount :=
                          Some (incrementedUnread (unreadCount chatRoomData) userId)\<rparr>)) (\<lambda>_.
      await (addDoc_message chatId
               \<lparr>id_m = autoId, text_m = trim msgText, senderId = uid user,
                senderEmail = email user, timestamp = ServerTimestamp,
                read = False, reactions = None\<rparr>) (\<lambda>_.
      updateDoc_room chatId (\<lambda>room.
        room\<lparr>lastMessage :=
               Some \<lparr>text_lm = trim msgText, timestamp_lm = ServerTimestamp,
                     senderId_lm = uid user, read_lm = False, senderEmail_lm = None\<rparr>\<rparr>)))))"

definition sendMessage ::
  "AuthUser option \<Rightarrow> string option \<Rightarrow> string \<Rightarrow> Screen \<times> Firestore \<Rightarrow> Screen \<times> Firestore" where
  "sendMessage currentUser userId autoId st =
     (let s = fst st; db = snd st in
      if trim (message s) = [] \<or> \<not> truthy (currentUid currentUser) \<or> \<not> truthy userId \<or> sending s
      then (s, db)
      else
        (case (currentUser, userId) of
           (Some user, Some uId) \<Rightarrow>
             (case sendSteps user uId autoId (message s) db of
                (Inr _, db') \<Rightarrow> (s\<lparr>message := [], sending := False\<rparr>, db')
              | (Inl _, db') \<Rightarrow> (s\<lparr>sending := False\<rparr>, db'))
         | _ \<Rightarrow> (s, db)))"

text \<open>
  \<^verbatim>\<open>sendMessage\<close> of the second ChatScreen (chat.tsx, lines 879 to 921). It has no guard
  on the user or the peer, so either may be undefined; a write whose data holds an
  undefined value is refused by the client library before any round trip. An undefined
  computed key is the string \<^verbatim>\<open>undefined\<close>.
\<close>

definition keyOf :: "string option \<Rightarrow> string" where
  "keyOf k = (case k of None \<Rightarrow> ''undefined'' | Some s \<Rightarrow> s)"

definition sendSteps_v2 ::
  "AuthUser option \<Rightarrow> string option \<Rightarrow> string \<Rightarrow> string \<Rightarrow> unit promise" where
  "sendSteps_v2 currentUser userId autoId msgText =
     (let chatId = chatIdOf (currentUid currentUser) userId in
      await (getDoc_room chatId) (\<lambda>docSnap.
      await (case docSnap of
               None \<Rightarrow>
                 (case (currentUser, userId) of
                    (Some user, Some uId) \<Rightarrow>
                      setDoc_room chatId
                        \<lparr>participants = [uid user, uId],
                         lastMessage =
                           Some \<lparr>text_lm = trim msgText, timestamp_lm = ServerTimestamp,
                                 senderId_lm = uid user, read_lm = False,
                                 senderEmail_lm = email user\<rparr>,
                         unreadCount = Some [uId \<mapsto> 1],
                         createdAt = ServerTimestamp\<rparr>
                  | _ \<Rightarrow> rejected InvalidData)
             | Some prev \<Rightarrow>
                 (case currentUser of
                    Some user \<Rightarrow>
                      updateDoc_room chatId (\<lambda>room.
                        room\<lparr>lastMessage :=
                               Some \<lparr>text_lm = trim msgText, timestamp_lm = ServerTimestamp,
                                     senderId_lm = uid user, read_lm = False,
                                     senderEmail_lm = email user\<rparr>,
                             unreadCount :=
                               Some (incrementedUnread (unreadCount prev) (keyOf userId))\<rparr>)
                  | None \<Rightarrow> rejected InvalidData)) (\<lambda>_.
      (case currentUser of
         Some user \<Rightarrow>
           addDoc_message chatId
             \<lparr>id_m = autoId, text_m = trim msgText, senderId = uid user,
              senderEmail = email user, timestamp = ServerTimestamp,
              read = False, reactions = None\<rparr>
       | None \<Rightarrow> rejected InvalidData))))"

definition sendMessage_v2 ::
  "AuthUser option \<Rightarrow> string option \<Rightarrow> string \<Rightarrow> Screen \<times> Firestore \<Rightarrow> Screen \<times> Firestore" where
  "sendMessage_v2 currentUser userId autoId st =
     (let s = fst st; db = snd st in
      if trim (message s) = [] \<or> sending s then (s, db)
      else
        (case sendSteps_v2 currentUser userId autoId (message s) db of
           (Inr _, db') \<Rightarrow> (s\<lparr>message := [], sending := False\<rparr>, db')
         | (Inl _, db') \<Rightarrow> (s\<lparr>sending := False\<rparr>, db')))"

section \<open>Read-receipt marker\<close>

text \<open>
  The second \<^verbatim>\<open>onSnapshot\<close> callback of the first ChatScreen (chat.tsx, lines 215 to 237).
  \<open>chatId\<close> was computed when the subscription was set up; \<open>currentUser\<close> is read when
  the callback runs. The promise of \<^verbatim>\<open>batch.commit()\<close> is dropped.
\<close>

definition onSnapshotMarkRead ::
  "AuthUser option \<Rightarrow> string \<Rightarrow> Message list \<Rightarrow> Screen \<times> Firestore \<Rightarrow> Screen \<times> Firestore" where
  "onSnapshotMarkRead currentUser chatId newMessages st =
     (let s = (fst st)\<lparr>messages := newMessages, loading := False\<rparr>;
          db = snd st;
          unreadMessages =
            filter (\<lambda>msg. Some (senderId msg) \<noteq> currentUid currentUser \<and> \<not> read msg) newMessages
      in if length unreadMessages > 0
         then (s, snd (commitBatch chatId (map id_m unreadMessages) (\<lambda>m. m\<lparr>read := True\<rparr>) db))
         else (s, db))"

text \<open>
  \<^verbatim>\<open>markMessagesAsRead\<close> with the guard of its effect (chat.tsx, lines 243 to 272). The
  update names the field paths \<^verbatim>\<open>lastMessage.read\<close> and \<^verbatim>\<open>unreadCount.{uid}\<close>; errors are
  caught and logged.
\<close>

definition markMessagesAsRead :: "AuthUser option \<Rightarrow> string option \<Rightarrow> Firestore \<Rightarrow> Firestore" where
  "markMessagesAsRead currentUser userId db =
     (if \<not> truthy (currentUid currentUser) \<or> \<not> truthy userId then db
      else
        (let chatId = chatIdOf (currentUid currentUser) userId;
             body =
               await (getDoc_room chatId) (\<lambda>chatRoomDoc.
                 case chatRoomDoc of
                   None \<Rightarrow> resolved ()
                 | Some chatRoomData \<Rightarrow>
                     (let unreadMessages =
                            (map_option senderId_lm (lastMessage chatRoomData) = userId \<and>
                             \<not> (case lastMessage chatRoomData of
                                    None \<Rightarrow> False
                                  | Some lm \<Rightarrow> read_lm lm))
                      in if unreadMessages
                         then updateDoc_room chatId (\<lambda>room.
                                room\<lparr>lastMessage :=
                                       map_option (\<lambda>lm. lm\<lparr>read_lm := True\<rparr>) (lastMessage room),
                                     unreadCount :=
                                       Some ((spread (unreadCount room))
                                               (keyOf (currentUid currentUser) \<mapsto> 0))\<rparr>)
                         else resolved ()))
         in snd (body db)))"

text \<open>
  Opening a conversation runs both effects: the subscription delivers the stored messages
  to the marking callback, and \<^verbatim>\<open>markMessagesAsRead\<close> is called once. The subscription
  is set up only when the user and the peer are known.
\<close>

definition readMarking ::
  "AuthUser option \<Rightarrow> string option \<Rightarrow> Message list \<Rightarrow> Screen \<times> Firestore \<Rightarrow> Screen \<times> Firestore" where
  "readMarking currentUser userId newMessages st =
     (let st1 = (if \<not> truthy (currentUid currentUser) \<or> \<not> truthy userId then st
                 else onSnapshotMarkRead currentUser
                        (chatIdOf (currentUid currentUser) userId) newMessages st)
      in (fst st1, markMessagesAsRead currentUser userId (snd st1)))"


text \<open>
  The condition and the field update of \<^verbatim>\<open>markMessagesAsRead\<close> once more, as functions of
  the summary document that was read, for use in the statements about it.
\<close>

definition summaryUnread :: "string \<Rightarrow> ChatRoomData \<Rightarrow> bool" where
  "summaryUnread uId room \<longleftrightarrow>
     map_option senderId_lm (lastMessage room) = Some uId \<and>
     \<not> (case lastMessage room of None \<Rightarrow> False | Some lm \<Rightarrow> read_lm lm)"

definition summaryRead :: "string \<Rightarrow> ChatRoomData \<Rightarrow> ChatRoomData" where
  "summaryRead u room =
     room\<lparr>lastMessage := map_option (\<lambda>lm. lm\<lparr>read_lm := True\<rparr>) (lastMessage room),
          unreadCount := Some ((spread (unreadCount room))(u \<mapsto> 0))\<rparr>"

section \<open>Reaction update\<close>










section \<open>Send times and sample data\<close>

text \<open>
  The send time as a number, read the way the conversation list reads it
  (\<^verbatim>\<open>timestamp?.toMillis?.() || 0\<close> in chats.tsx): an unresolved timestamp counts as 0.
\<close>

definition toMillis :: "timestamp \<Rightarrow> nat" where
  "toMillis t = (case t of ServerTimestamp \<Rightarrow> 0 | Millis n \<Rightarrow> n)"

definition sentAt :: "Message \<Rightarrow> nat" where
  "sentAt m = toMillis (timestamp m)"

text \<open>Concrete values on which the theorems below are instantiated.\<close>

definition exMsg :: "string \<Rightarrow> string \<Rightarrow> string \<Rightarrow> nat \<Rightarrow> bool \<Rightarrow> Message" where
  "exMsg i t from at r =
     \<lparr>id_m = i, text_m = t, senderId = from, senderEmail = None, timestamp = Millis at,
      read = r, reactions = None\<rparr>"

definition exLocal :: "Message list" where
  "exLocal = [exMsg ''m2'' ''see you'' ''A'' 20 False]"

definition exSnapshot :: "Message list" where
  "exSnapshot = [exMsg ''m1'' ''hello'' ''A'' 10 True, exMsg ''m2'' ''see you'' ''A'' 20 True]"

definition exScreen :: Screen where
  "exScreen = \<lparr>message = [], messages = exLocal, loading = True, sending = False,
               localMessages = exLocal\<rparr>"

definition exAlice :: AuthUser where
  "exAlice = \<lparr>uid = ''A'', email = Some ''a@example.org''\<rparr>"

definition exBob :: AuthUser where
  "exBob = \<lparr>uid = ''B'', email = Some ''b@example.org''\<rparr>"

definition exCompose :: Screen where
  "exCompose = \<lparr>message = '' hi '', messages = [], loading = False, sending = False,
                localMessages = []\<rparr>"

definition exEmptyDb :: Firestore where
  "exEmptyDb = \<lparr>chatRooms = Map.empty, chatMessages = (\<lambda>_. []), faults = [], requests = []\<rparr>"

definition exRoom :: ChatRoomData where
  "exRoom =
     \<lparr>participants = [''A'', ''B''],
      lastMessage = Some \<lparr>text_lm = ''yo'', timestamp_lm = Millis 5, senderId_lm = ''B'',
                          read_lm = True, senderEmail_lm = None\<rparr>,
      unreadCount = Some [''A'' \<mapsto> 3],
      createdAt = Millis 1\<rparr>"

definition exRoomDb :: Firestore where
  "exRoomDb = exEmptyDb\<lparr>chatRooms := [''A_B'' \<mapsto> exRoom]\<rparr>"

definition exCountedDb :: Firestore where
  "exCountedDb =
     exEmptyDb\<lparr>chatRooms := [''A_B'' \<mapsto> exRoom\<lparr>unreadCount := Some [''A'' \<mapsto> 3, ''B'' \<mapsto> 4]\<rparr>]\<rparr>"

definition exFaultyDb :: Firestore where
  "exFaultyDb = exEmptyDb\<lparr>faults := [False, False, True]\<rparr>"

definition exSentMsgs :: "Message list" where
  "exSentMsgs =
     [exMsg ''m0'' ''hey'' ''B'' 5 False, exMsg ''m1'' ''hello'' ''A'' 10 False,
      exMsg ''m2'' ''see you'' ''A'' 20 False]"

definition exSentRoom :: ChatRoomData where
  "exSentRoom =
     \<lparr>participants = [''A'', ''B''],
      lastMessage = Some \<lparr>text_lm = ''see you'', timestamp_lm = Millis 20, senderId_lm = ''A'',
                          read_lm = False, senderEmail_lm = None\<rparr>,
      unreadCount = Some [''B'' \<mapsto> 2],
      createdAt = Millis 1\<rparr>"

definition exSentDb :: Firestore where
  "exSentDb =
     \<lparr>chatRooms = [''A_B'' \<mapsto> exSentRoom],
      chatMessages = (\<lambda>_. [])(''A_B'' := exSentMsgs),
      faults = [], requests = []\<rparr>"



text \<open>
  A screen whose list is already on display: \<open>loading\<close> is \<open>False\<close>, so the render
  (chat.tsx lines 465-471) has passed the loading placeholder and the list is mounted.
\<close>

definition exMountedScreen :: Screen where
  "exMountedScreen = \<lparr>message = [], messages = exLocal, loading = False, sending = False,
                      localMessages = exLocal\<rparr>"

text \<open>
  The store holding the conversation record, with a backend that rejects the fourth round
  trip.
\<close>

definition exLastWriteRejectedDb :: Firestore where
  "exLastWriteRejectedDb = exRoomDb\<lparr>faults := [False, False, False, True]\<rparr>"

section \<open>Properties of the reconciler\<close>

lemma findIndex_ge: "- 1 \<le> findIndex P xs"
  by (induction xs) (auto simp: Let_def)

lemma findIndex_none: "findIndex P xs = - 1 \<longleftrightarrow> (\<forall>x \<in> set xs. \<not> P x)"
proof (induction xs)
  case Nil
  show ?case by simp
next
  case (Cons x xs)
  have "- 1 \<le> findIndex P xs" by (rule findIndex_ge)
  with Cons show ?case by (auto simp: Let_def)
qed

lemma findIndex_found:
  "findIndex P xs \<noteq> - 1 \<Longrightarrow>
     nat (findIndex P xs) < length xs \<and> P (xs ! nat (findIndex P xs))"
proof (induction xs)
  case Nil
  then show ?case by simp
next
  case (Cons x xs)
  show ?case
  proof (cases "P x")
    case True
    then show ?thesis by simp
  next
    case False
    with Cons.prems have ne: "findIndex P xs \<noteq> - 1"
      by (auto simp: Let_def split: if_splits)
    have ge: "- 1 \<le> findIndex P xs" by (rule findIndex_ge)
    from ne ge have "nat (findIndex P xs + 1) = Suc (nat (findIndex P xs))" by simp
    with Cons.IH [OF ne] False ne show ?thesis by (simp add: Let_def)
  qed
qed

lemma ids_mergeStep:
  "map id_m (mergeStep xs y) =
     (if id_m y \<in> set (map id_m xs) then map id_m xs else map id_m xs @ [id_m y])"
proof (cases "findIndex (\<lambda>m. id_m m = id_m y) xs = - 1")
  case True
  then have "id_m y \<notin> set (map id_m xs)" by (auto simp: findIndex_none)
  with True show ?thesis by (simp add: mergeStep_def)
next
  case False
  from findIndex_found [OF False]
  have i: "nat (findIndex (\<lambda>m. id_m m = id_m y) xs) < length xs"
    and e: "id_m (xs ! nat (findIndex (\<lambda>m. id_m m = id_m y) xs)) = id_m y" by auto
  from False obtain x where "x \<in> set xs" "id_m x = id_m y"
    by (auto simp: findIndex_none)
  then have mem: "id_m y \<in> set (map id_m xs)"
    using image_eqI [of "id_m y" id_m x "set xs"] by simp
  have "map id_m (xs[nat (findIndex (\<lambda>m. id_m m = id_m y) xs) := y]) = map id_m xs"
    using i e by (simp add: map_update list_update_same_conv)
  with False mem show ?thesis by (simp add: mergeStep_def)
qed

lemma filter_notin_extra:
  "k \<notin> set ks \<Longrightarrow> filter (\<lambda>i. i \<noteq> k \<and> i \<notin> S) ks = filter (\<lambda>i. i \<notin> S) ks"
  by (induction ks) auto

lemma set_append_filter_new: "set (as @ filter (\<lambda>i. i \<notin> set as) bs) = set as \<union> set bs"
  by auto

lemma distinct_append_filter_new:
  "distinct as \<Longrightarrow> distinct bs \<Longrightarrow> distinct (as @ filter (\<lambda>i. i \<notin> set as) bs)"
  by auto

lemma ids_foldl_mergeStep:
  "distinct (map id_m ys) \<Longrightarrow>
     map id_m (foldl mergeStep xs ys) =
     map id_m xs @ filter (\<lambda>i. i \<notin> set (map id_m xs)) (map id_m ys)"
proof (induction ys arbitrary: xs)
  case Nil
  show ?case by simp
next
  case (Cons y ys)
  from Cons.prems have d: "distinct (map id_m ys)" and n: "id_m y \<notin> set (map id_m ys)"
    by simp_all
  note ih = Cons.IH [OF d, of "mergeStep xs y"]
  show ?case
  proof (cases "id_m y \<in> set (map id_m xs)")
    case True
    with ih show ?thesis by (simp add: ids_mergeStep del: set_map)
  next
    case False
    with ih filter_notin_extra [OF n, of "set (map id_m xs)"] show ?thesis
      by (simp add: ids_mergeStep del: set_map)
  qed
qed

lemma ids_mergeMessages:
  "distinct (map id_m ys) \<Longrightarrow>
     map id_m (mergeMessages xs ys) =
     map id_m xs @ filter (\<lambda>i. i \<notin> set (map id_m xs)) (map id_m ys)"
  by (cases xs) (simp_all add: mergeMessages_def ids_foldl_mergeStep del: set_map)

lemma count_list_1: "distinct ks \<Longrightarrow> k \<in> set ks \<Longrightarrow> count_list ks k = 1"
  by (induction ks) (auto simp: count_list_0_iff)

lemma mergeStep_new: "id_m y \<notin> set (map id_m xs) \<Longrightarrow> mergeStep xs y = xs @ [y]"
proof -
  assume "id_m y \<notin> set (map id_m xs)"
  then have "\<forall>x \<in> set xs. \<not> id_m x = id_m y" by (metis image_eqI set_map)
  then have "findIndex (\<lambda>m. id_m m = id_m y) xs = - 1" by (simp add: findIndex_none)
  then show ?thesis by (simp add: mergeStep_def)
qed

lemma mergeStep_old:
  assumes d: "distinct (map id_m xs)" and mem: "id_m y \<in> set (map id_m xs)"
  shows "mergeStep xs y = map (\<lambda>m. if id_m m = id_m y then y else m) xs"
proof -
  let ?i = "nat (findIndex (\<lambda>m. id_m m = id_m y) xs)"
  from mem obtain x where "x \<in> set xs" "id_m x = id_m y" by auto
  then have ne: "findIndex (\<lambda>m. id_m m = id_m y) xs \<noteq> - 1"
    by (auto simp: findIndex_none)
  from findIndex_found [OF ne] have i: "?i < length xs" and e: "id_m (xs ! ?i) = id_m y"
    by auto
  have "xs[?i := y] = map (\<lambda>m. if id_m m = id_m y then y else m) xs"
  proof (rule nth_equalityI)
    show "length (xs[?i := y]) = length (map (\<lambda>m. if id_m m = id_m y then y else m) xs)"
      by simp
  next
    fix j assume "j < length (xs[?i := y])"
    then have j: "j < length xs" by simp
    show "xs[?i := y] ! j = map (\<lambda>m. if id_m m = id_m y then y else m) xs ! j"
    proof (cases "j = ?i")
      case True
      with i e show ?thesis by simp
    next
      case False
      have "map id_m xs ! j \<noteq> map id_m xs ! ?i"
        using d i j False by (simp add: nth_eq_iff_index_eq del: nth_map)
      with i j e have "id_m (xs ! j) \<noteq> id_m y" by simp
      with False j show ?thesis by simp
    qed
  qed
  with ne show ?thesis by (simp add: mergeStep_def)
qed

lemma length_mergeStep: "length xs \<le> length (mergeStep xs y)"
  by (simp add: mergeStep_def Let_def)

lemma length_foldl_mergeStep: "length xs \<le> length (foldl mergeStep xs ys)"
proof (induction ys arbitrary: xs)
  case Nil
  show ?case by simp
next
  case (Cons y ys)
  have "length xs \<le> length (mergeStep xs y)" by (rule length_mergeStep)
  also have "\<dots> \<le> length (foldl mergeStep (mergeStep xs y) ys)" by (rule Cons.IH)
  finally show ?case by simp
qed

lemma find_absent: "k \<notin> set (map id_m ys) \<Longrightarrow> find (\<lambda>n. id_m n = k) ys = None"
  by (induction ys) auto

lemma find_present:
  "distinct (map id_m ys) \<Longrightarrow> n \<in> set ys \<Longrightarrow> find (\<lambda>z. id_m z = id_m n) ys = Some n"
proof (induction ys)
  case Nil
  then show ?case by simp
next
  case (Cons y ys)
  show ?case
  proof (cases "n = y")
    case True
    then show ?thesis by simp
  next
    case False
    with Cons.prems have mem: "n \<in> set ys" by simp
    then have "id_m n \<in> set (map id_m ys)" by simp
    with Cons.prems have "id_m y \<noteq> id_m n" by auto
    with Cons.IH mem Cons.prems show ?thesis by simp
  qed
qed

lemma foldl_mergeStep_closed:
  assumes "distinct (map id_m xs)" and "distinct (map id_m ys)"
  shows "foldl mergeStep xs ys =
           map (\<lambda>m. case find (\<lambda>n. id_m n = id_m m) ys of None \<Rightarrow> m | Some n \<Rightarrow> n) xs @
           filter (\<lambda>n. id_m n \<notin> set (map id_m xs)) ys"
  using assms
proof (induction ys arbitrary: xs)
  case Nil
  show ?case by simp
next
  case (Cons y ys)
  from Cons.prems have dys: "distinct (map id_m ys)" and ny: "id_m y \<notin> set (map id_m ys)"
    by simp_all
  have fy: "find (\<lambda>n. id_m n = id_m y) ys = None" using ny by (rule find_absent)
  show ?case
  proof (cases "id_m y \<in> set (map id_m xs)")
    case False
    then have step: "mergeStep xs y = xs @ [y]" by (rule mergeStep_new)
    have dx: "distinct (map id_m (xs @ [y]))" using Cons.prems(1) False by simp
    have keep: "map (\<lambda>m. case find (\<lambda>n. id_m n = id_m m) (y # ys) of None \<Rightarrow> m | Some n \<Rightarrow> n) xs =
                map (\<lambda>m. case find (\<lambda>n. id_m n = id_m m) ys of None \<Rightarrow> m | Some n \<Rightarrow> n) xs"
    proof (rule map_cong [OF refl])
      fix m assume "m \<in> set xs"
      then have "id_m m \<in> set (map id_m xs)" by simp
      with False have "id_m y \<noteq> id_m m" by metis
      then show "(case find (\<lambda>n. id_m n = id_m m) (y # ys) of None \<Rightarrow> m | Some n \<Rightarrow> n) =
                 (case find (\<lambda>n. id_m n = id_m m) ys of None \<Rightarrow> m | Some n \<Rightarrow> n)" by simp
    qed
    have flt: "filter (\<lambda>n. id_m n \<notin> set (map id_m (xs @ [y]))) ys =
               filter (\<lambda>n. id_m n \<notin> set (map id_m xs)) ys"
    proof (rule filter_cong [OF refl])
      fix n assume "n \<in> set ys"
      then have "id_m n \<in> set (map id_m ys)" by simp
      with ny have "id_m n \<noteq> id_m y" by metis
      then show "(id_m n \<notin> set (map id_m (xs @ [y]))) = (id_m n \<notin> set (map id_m xs))"
        by simp
    qed
    from Cons.IH [OF dx dys] step keep flt fy False show ?thesis by simp
  next
    case True
    have step: "mergeStep xs y = map (\<lambda>m. if id_m m = id_m y then y else m) xs"
      using Cons.prems(1) True by (rule mergeStep_old)
    have ids: "map id_m (mergeStep xs y) = map id_m xs"
      using True by (simp add: ids_mergeStep del: set_map)
    have dx: "distinct (map id_m (mergeStep xs y))" using Cons.prems(1) ids by simp
    have upd: "map (\<lambda>m. case find (\<lambda>n. id_m n = id_m m) ys of None \<Rightarrow> m | Some n \<Rightarrow> n)
                 (mergeStep xs y) =
               map (\<lambda>m. case find (\<lambda>n. id_m n = id_m m) (y # ys) of None \<Rightarrow> m | Some n \<Rightarrow> n) xs"
      unfolding step using fy by (auto simp: eq_commute [of "id_m y"])
    from Cons.IH [OF dx dys] ids upd True show ?thesis by simp
  qed
qed


lemma mergeMessages_closed:
  assumes "distinct (map id_m xs)" and "distinct (map id_m ys)"
  shows "mergeMessages xs ys =
           map (\<lambda>m. case find (\<lambda>n. id_m n = id_m m) ys of None \<Rightarrow> m | Some n \<Rightarrow> n) xs @
           filter (\<lambda>n. id_m n \<notin> set (map id_m xs)) ys"
proof (cases xs)
  case Nil
  then show ?thesis by (simp add: mergeMessages_def)
next
  case (Cons x xs')
  then have "mergeMessages xs ys = foldl mergeStep xs ys" by (simp add: mergeMessages_def)
  with foldl_mergeStep_closed [OF assms] show ?thesis by simp
qed

text \<open>
  C1. When the identifiers of the previous merged list are pairwise distinct and so are
  those of the new snapshot, every identifier of either list occurs exactly once among
  the identifiers of the merged list, which therefore covers both inputs.
\<close>

theorem merge_ids_exactly_once:
  assumes "distinct (map id_m prev)" and "distinct (map id_m snap)"
  shows "(\<forall>k \<in> set (map id_m prev) \<union> set (map id_m snap).
            count_list (map id_m (mergeMessages prev snap)) k = 1) \<and>
         set (map id_m prev) \<subseteq> set (map id_m (mergeMessages prev snap)) \<and>
         set (map id_m snap) \<subseteq> set (map id_m (mergeMessages prev snap))"
proof -
  let ?r = "map id_m (mergeMessages prev snap)"
  have eq: "?r = map id_m prev @ filter (\<lambda>i. i \<notin> set (map id_m prev)) (map id_m snap)"
    using assms(2) by (rule ids_mergeMessages)
  have s: "set ?r = set (map id_m prev) \<union> set (map id_m snap)"
    unfolding eq by (rule set_append_filter_new)
  have d: "distinct ?r"
    unfolding eq using assms by (rule distinct_append_filter_new)
  have "\<forall>k \<in> set ?r. count_list ?r k = 1"
    using d by (simp add: count_list_1 del: set_map)
  with s show ?thesis by simp
qed

theorem merge_ids_exactly_once_witness:
  "distinct (map id_m exLocal) \<and> distinct (map id_m exSnapshot) \<and>
   count_list (map id_m (mergeMessages exLocal exSnapshot)) ''m1'' = 1 \<and>
   count_list (map id_m (mergeMessages exLocal exSnapshot)) ''m2'' = 1 \<and>
   set (map id_m (mergeMessages exLocal exSnapshot)) = {''m1'', ''m2''}"
proof -
  have d1: "distinct (map id_m exLocal)" by (simp add: exLocal_def exMsg_def)
  have d2: "distinct (map id_m exSnapshot)" by (simp add: exSnapshot_def exMsg_def)
  have ids: "set (map id_m exLocal) \<union> set (map id_m exSnapshot) = {''m1'', ''m2''}"
    by (auto simp: exLocal_def exSnapshot_def exMsg_def)
  have r: "map id_m (mergeMessages exLocal exSnapshot) = [''m2'', ''m1'']"
    by (simp add: mergeMessages_def mergeStep_def exLocal_def exSnapshot_def exMsg_def)
  from merge_ids_exactly_once [OF d1 d2] d1 d2 ids r show ?thesis by auto
qed

text \<open>
  C2. Under the same distinctness of identifiers: an entry of the previous list whose
  identifier occurs in the snapshot keeps its index and now holds the snapshot's message;
  an entry whose identifier does not occur in the snapshot is untouched; what follows the
  previous list's length is exactly the snapshot's messages with new identifiers, in
  snapshot order. No sorting takes place: on the sample data the snapshot is ascending in
  send time and the merged list is not.
\<close>

theorem merge_keeps_positions_live_wins:
  assumes "distinct (map id_m prev)" and "distinct (map id_m snap)"
  shows "(\<forall>i < length prev. \<forall>n \<in> set snap.
            id_m n = id_m (prev ! i) \<longrightarrow> mergeMessages prev snap ! i = n) \<and>
         (\<forall>i < length prev.
            id_m (prev ! i) \<notin> set (map id_m snap) \<longrightarrow> mergeMessages prev snap ! i = prev ! i) \<and>
         drop (length prev) (mergeMessages prev snap) =
           filter (\<lambda>n. id_m n \<notin> set (map id_m prev)) snap \<and>
         sorted (map sentAt exSnapshot) \<and>
         \<not> sorted (map sentAt (mergeMessages exLocal exSnapshot))"
proof -
  note eq = mergeMessages_closed [OF assms]
  have a: "\<forall>i < length prev. \<forall>n \<in> set snap.
            id_m n = id_m (prev ! i) \<longrightarrow> mergeMessages prev snap ! i = n"
  proof (intro allI impI ballI)
    fix i n assume i: "i < length prev" and n: "n \<in> set snap" and e: "id_m n = id_m (prev ! i)"
    from find_present [OF assms(2) n] e
    have "find (\<lambda>z. id_m z = id_m (prev ! i)) snap = Some n" by simp
    with i show "mergeMessages prev snap ! i = n" by (simp add: eq nth_append)
  qed
  have b: "\<forall>i < length prev.
            id_m (prev ! i) \<notin> set (map id_m snap) \<longrightarrow> mergeMessages prev snap ! i = prev ! i"
  proof (intro allI impI)
    fix i assume i: "i < length prev" and "id_m (prev ! i) \<notin> set (map id_m snap)"
    then have "find (\<lambda>z. id_m z = id_m (prev ! i)) snap = None" by (intro find_absent)
    with i show "mergeMessages prev snap ! i = prev ! i" by (simp add: eq nth_append)
  qed
  have c: "drop (length prev) (mergeMessages prev snap) =
           filter (\<lambda>n. id_m n \<notin> set (map id_m prev)) snap"
    by (simp add: eq)
  have d: "sorted (map sentAt exSnapshot)"
    by (simp add: exSnapshot_def exMsg_def sentAt_def toMillis_def)
  have e: "\<not> sorted (map sentAt (mergeMessages exLocal exSnapshot))"
    by (simp add: mergeMessages_def mergeStep_def exLocal_def exSnapshot_def exMsg_def
        sentAt_def toMillis_def)
  from a b c d e show ?thesis by blast
qed

theorem merge_keeps_positions_live_wins_witness:
  "distinct (map id_m exLocal) \<and> distinct (map id_m exSnapshot) \<and>
   mergeMessages exLocal exSnapshot ! 0 = exMsg ''m2'' ''see you'' ''A'' 20 True \<and>
   drop (length exLocal) (mergeMessages exLocal exSnapshot) = [exMsg ''m1'' ''hello'' ''A'' 10 True]"
proof -
  have d1: "distinct (map id_m exLocal)" by (simp add: exLocal_def exMsg_def)
  have d2: "distinct (map id_m exSnapshot)" by (simp add: exSnapshot_def exMsg_def)
  have i: "0 < length exLocal" by (simp add: exLocal_def)
  have n: "exMsg ''m2'' ''see you'' ''A'' 20 True \<in> set exSnapshot" by (simp add: exSnapshot_def)
  have e: "id_m (exMsg ''m2'' ''see you'' ''A'' 20 True) = id_m (exLocal ! 0)"
    by (simp add: exLocal_def exMsg_def)
  have f: "filter (\<lambda>n. id_m n \<notin> set (map id_m exLocal)) exSnapshot =
           [exMsg ''m1'' ''hello'' ''A'' 10 True]"
    by (simp add: exLocal_def exSnapshot_def exMsg_def)
  from merge_keeps_positions_live_wins [OF d1 d2] i n e f d1 d2 show ?thesis by auto
qed

text \<open>
  C9, as the code has it. The callback asks for the scroll exactly when the snapshot's own
  list is non-empty, in which case the merged list is non-empty too.
\<close>

theorem scroll_issued_iff_snapshot_nonempty:
  "(ScrollToEnd \<in> set (snd (onSnapshotMerge s messageList)) \<longleftrightarrow> messageList \<noteq> []) \<and>
   (messageList \<noteq> [] \<longrightarrow> messages (fst (onSnapshotMerge s messageList)) \<noteq> [])"
proof -
  have "messageList \<noteq> [] \<Longrightarrow> mergeMessages (localMessages s) messageList \<noteq> []"
  proof (cases "localMessages s")
    case Nil
    assume "messageList \<noteq> []"
    with Nil show ?thesis by (simp add: mergeMessages_def)
  next
    case (Cons x xs)
    have "length (localMessages s) \<le> length (foldl mergeStep (localMessages s) messageList)"
      by (rule length_foldl_mergeStep)
    with Cons show ?thesis by (auto simp: mergeMessages_def)
  qed
  then show ?thesis by (auto simp: onSnapshotMerge_def)
qed

theorem scroll_issued_iff_snapshot_nonempty_witness:
  "exSnapshot \<noteq> [] \<and> ScrollToEnd \<in> set (snd (onSnapshotMerge exScreen exSnapshot)) \<and>
   messages (fst (onSnapshotMerge exScreen exSnapshot)) \<noteq> []"
proof -
  have "exSnapshot \<noteq> []" by (simp add: exSnapshot_def)
  with scroll_issued_iff_snapshot_nonempty [of exScreen exSnapshot] show ?thesis by simp
qed

text \<open>
  On a screen whose list is mounted (\<open>loading\<close> is already \<open>False\<close>), an empty snapshot
  merged into a non-empty previous list leaves the displayed list as it was, non-empty,
  and the callback issues no scroll request. As the displayed list does not change, the
  list is neither laid out anew nor does its content size change.
\<close>

theorem scroll_on_nonempty_merge_counterexample:
  "\<not> loading exMountedScreen \<and>
   messages (fst (onSnapshotMerge exMountedScreen [])) = messages exMountedScreen \<and>
   messages (fst (onSnapshotMerge exMountedScreen [])) \<noteq> [] \<and>
   ScrollToEnd \<notin> set (snd (onSnapshotMerge exMountedScreen []))"
  by (simp add: onSnapshotMerge_def mergeMessages_def exMountedScreen_def exLocal_def)

section \<open>Properties of the send path\<close>

lemma healthy4_cases:
  assumes "True \<notin> set (take 4 fs)"
  obtains "fs = []" | "fs = [False]" | "fs = [False, False]" | "fs = [False, False, False]"
  | r where "fs = False # False # False # False # r"
proof (cases fs)
  case Nil
  then show ?thesis using that(1) by simp
next
  case c1: (Cons f1 fs1)
  show ?thesis
  proof (cases fs1)
    case Nil
    with c1 assms show ?thesis using that(2) by simp
  next
    case c2: (Cons f2 fs2)
    show ?thesis
    proof (cases fs2)
      case Nil
      with c1 c2 assms show ?thesis using that(3) by simp
    next
      case c3: (Cons f3 fs3)
      show ?thesis
      proof (cases fs3)
        case Nil
        with c1 c2 c3 assms show ?thesis using that(4) by simp
      next
        case (Cons f4 fs4)
        with c1 c2 c3 assms show ?thesis using that(5) [of fs4] by simp
      qed
    qed
  qed
qed

lemma faulty4_cases:
  assumes "True \<in> set (take 4 fs)"
  obtains r where "fs = True # r"
  | r where "fs = False # True # r"
  | r where "fs = False # False # True # r"
  | r where "fs = False # False # False # True # r"
proof (cases fs)
  case Nil
  with assms show ?thesis by simp
next
  case c1: (Cons f1 fs1)
  show ?thesis
  proof (cases f1)
    case True
    with c1 show ?thesis using that(1) by simp
  next
    case n1: False
    show ?thesis
    proof (cases fs1)
      case Nil
      with c1 n1 assms show ?thesis by simp
    next
      case c2: (Cons f2 fs2)
      show ?thesis
      proof (cases f2)
        case True
        with c1 n1 c2 show ?thesis using that(2) by simp
      next
        case n2: False
        show ?thesis
        proof (cases fs2)
          case Nil
          with c1 n1 c2 n2 assms show ?thesis by simp
        next
          case c3: (Cons f3 fs3)
          show ?thesis
          proof (cases f3)
            case True
            with c1 n1 c2 n2 c3 show ?thesis using that(3) by simp
          next
            case n3: False
            show ?thesis
            proof (cases fs3)
              case Nil
              with c1 n1 c2 n2 c3 n3 assms show ?thesis by simp
            next
              case (Cons f4 fs4)
              with c1 n1 c2 n2 c3 n3 assms show ?thesis using that(4) [of fs4] by simp
            qed
          qed
        qed
      qed
    qed
  qed
qed

lemmas store_defs =
  await_def getDoc_room_def setDoc_room_def updateDoc_room_def addDoc_message_def roundTrip_def
  nextSucceeds_def

lemma sendSteps_present:
  assumes h: "True \<notin> set (take 4 (faults db))"
    and r: "chatRooms db (chatIdOf (Some (uid user)) (Some uId)) = Some room"
  shows "sendSteps user uId autoId txt db =
    (Inr (),
     db\<lparr>chatRooms := (chatRooms db)(chatIdOf (Some (uid user)) (Some uId) \<mapsto>
            room\<lparr>unreadCount := Some (incrementedUnread (unreadCount room) uId),
                 lastMessage := Some \<lparr>text_lm = trim txt, timestamp_lm = ServerTimestamp,
                     senderId_lm = uid user, read_lm = False, senderEmail_lm = None\<rparr>\<rparr>),
        chatMessages := (chatMessages db)(chatIdOf (Some (uid user)) (Some uId) :=
            chatMessages db (chatIdOf (Some (uid user)) (Some uId)) @
            [\<lparr>id_m = autoId, text_m = trim txt, senderId = uid user,
              senderEmail = email user, timestamp = ServerTimestamp,
              read = False, reactions = None\<rparr>]),
        faults := drop 4 (faults db),
        requests := requests db @
          [GetDoc (roomPath (chatIdOf (Some (uid user)) (Some uId))),
           UpdateDoc (roomPath (chatIdOf (Some (uid user)) (Some uId))),
           AddDoc (messagesPath (chatIdOf (Some (uid user)) (Some uId))),
           UpdateDoc (roomPath (chatIdOf (Some (uid user)) (Some uId)))]\<rparr>)"
  using h
proof (cases rule: healthy4_cases)
  case 1
  with r show ?thesis unfolding sendSteps_def Let_def by (simp add: store_defs)
next
  case 2
  with r show ?thesis unfolding sendSteps_def Let_def by (simp add: store_defs)
next
  case 3
  with r show ?thesis unfolding sendSteps_def Let_def by (simp add: store_defs)
next
  case 4
  with r show ?thesis unfolding sendSteps_def Let_def by (simp add: store_defs)
next
  case (5 r')
  with r show ?thesis unfolding sendSteps_def Let_def by (simp add: store_defs)
qed

lemma sendSteps_absent:
  assumes h: "True \<notin> set (take 4 (faults db))"
    and r: "chatRooms db (chatIdOf (Some (uid user)) (Some uId)) = None"
  shows "sendSteps user uId autoId txt db =
    (Inr (),
     db\<lparr>chatRooms := (chatRooms db)(chatIdOf (Some (uid user)) (Some uId) \<mapsto>
            \<lparr>participants = [uid user, uId],
             lastMessage = Some \<lparr>text_lm = trim txt, timestamp_lm = ServerTimestamp,
                     senderId_lm = uid user, read_lm = False, senderEmail_lm = None\<rparr>,
             unreadCount = Some [uId \<mapsto> 1],
             createdAt = ServerTimestamp\<rparr>),
        chatMessages := (chatMessages db)(chatIdOf (Some (uid user)) (Some uId) :=
            chatMessages db (chatIdOf (Some (uid user)) (Some uId)) @
            [\<lparr>id_m = autoId, text_m = trim txt, senderId = uid user,
              senderEmail = email user, timestamp = ServerTimestamp,
              read = False, reactions = None\<rparr>]),
        faults := drop 4 (faults db),
        requests := requests db @
          [GetDoc (roomPath (chatIdOf (Some (uid user)) (Some uId))),
           SetDoc (roomPath (chatIdOf (Some (uid user)) (Some uId))),
           AddDoc (messagesPath (chatIdOf (Some (uid user)) (Some uId))),
           UpdateDoc (roomPath (chatIdOf (Some (uid user)) (Some uId)))]\<rparr>)"
  using h
proof (cases rule: healthy4_cases)
  case 1
  with r show ?thesis unfolding sendSteps_def Let_def by (simp add: store_defs)
next
  case 2
  with r show ?thesis unfolding sendSteps_def Let_def by (simp add: store_defs)
next
  case 3
  with r show ?thesis unfolding sendSteps_def Let_def by (simp add: store_defs)
next
  case 4
  with r show ?thesis unfolding sendSteps_def Let_def by (simp add: store_defs)
next
  case (5 r')
  with r show ?thesis unfolding sendSteps_def Let_def by (simp add: store_defs)
qed

lemma sendSteps_rejects:
  assumes h: "True \<in> set (take 4 (faults db))"
  shows "fst (sendSteps user uId autoId txt db) = Inl BackendError"
  using h
proof (cases rule: faulty4_cases)
  case (1 r)
  then show ?thesis unfolding sendSteps_def Let_def
    by (simp add: store_defs split: option.splits)
next
  case (2 r)
  then show ?thesis unfolding sendSteps_def Let_def
    by (simp add: store_defs split: option.splits)
next
  case (3 r)
  then show ?thesis unfolding sendSteps_def Let_def
    by (simp add: store_defs split: option.splits)
next
  case (4 r)
  then show ?thesis unfolding sendSteps_def Let_def
    by (simp add: store_defs split: option.splits)
qed

lemma sendSteps_resolves:
  assumes h: "True \<notin> set (take 4 (faults db))"
  shows "fst (sendSteps user uId autoId txt db) = Inr ()"
proof (cases "chatRooms db (chatIdOf (Some (uid user)) (Some uId))")
  case None
  from sendSteps_absent [OF h None] show ?thesis by simp
next
  case (Some room)
  from sendSteps_present [OF h Some] show ?thesis by simp
qed

lemma sendMessage_unfold:
  assumes "trim (message s) \<noteq> []" "uid user \<noteq> []" "uId \<noteq> []" "\<not> sending s"
  shows "sendMessage (Some user) (Some uId) autoId (s, db) =
           (case sendSteps user uId autoId (message s) db of
              (Inr _, db') \<Rightarrow> (s\<lparr>message := [], sending := False\<rparr>, db')
            | (Inl _, db') \<Rightarrow> (s\<lparr>sending := False\<rparr>, db'))"
  using assms by (simp add: sendMessage_def truthy_def currentUid_def)


lemma sendMessage_resolved:
  assumes "trim (message s) \<noteq> []" "uid user \<noteq> []" "uId \<noteq> []" "\<not> sending s"
    and "True \<notin> set (take 4 (faults db))"
  shows "sendMessage (Some user) (Some uId) autoId (s, db) =
           (s\<lparr>message := [], sending := False\<rparr>, snd (sendSteps user uId autoId (message s) db))"
proof -
  from sendSteps_resolves [OF assms(5)]
  have "fst (sendSteps user uId autoId (message s) db) = Inr ()" .
  then show ?thesis
    unfolding sendMessage_unfold [OF assms(1-4)] by (simp add: split_beta)
qed

lemma sendMessage_rejected:
  assumes "trim (message s) \<noteq> []" "uid user \<noteq> []" "uId \<noteq> []" "\<not> sending s"
    and "True \<in> set (take 4 (faults db))"
  shows "sendMessage (Some user) (Some uId) autoId (s, db) =
           (s\<lparr>sending := False\<rparr>, snd (sendSteps user uId autoId (message s) db))"
proof -
  from sendSteps_rejects [OF assms(5)]
  have "fst (sendSteps user uId autoId (message s) db) = Inl BackendError" .
  then show ?thesis
    unfolding sendMessage_unfold [OF assms(1-4)] by (simp add: split_beta)
qed

lemma take4_drop4_of_take8: "True \<notin> set (take 8 fs) \<Longrightarrow> True \<notin> set (take 4 (drop 4 fs))"
proof
  assume a: "True \<notin> set (take 8 fs)" and b: "True \<in> set (take 4 (drop 4 fs))"
  have "take 8 fs = take 4 fs @ take 4 (drop 4 fs)"
    using take_add [of 4 4 fs] by simp
  with a b show False by simp
qed


text \<open>
  C8. The awaited steps reject exactly when one of the four round trips is rejected. In
  that case the compose buffer is what it was (and not empty) and \<open>sending\<close> is false
  again; an emptied buffer means that no round trip was rejected.
\<close>

theorem failed_send_keeps_buffer:
  assumes guard: "trim (message s) \<noteq> []" "uid user \<noteq> []" "uId \<noteq> []" "\<not> sending s"
  shows "(isl (fst (sendSteps user uId autoId (message s) db)) \<longleftrightarrow>
            True \<in> set (take 4 (faults db))) \<and>
         (True \<in> set (take 4 (faults db)) \<longrightarrow>
            message (fst (sendMessage (Some user) (Some uId) autoId (s, db))) = message s \<and>
            message (fst (sendMessage (Some user) (Some uId) autoId (s, db))) \<noteq> [] \<and>
            \<not> sending (fst (sendMessage (Some user) (Some uId) autoId (s, db)))) \<and>
         (message (fst (sendMessage (Some user) (Some uId) autoId (s, db))) = [] \<longrightarrow>
            True \<notin> set (take 4 (faults db)))"
proof -
  have ne: "message s \<noteq> []" using guard(1) by (auto simp: trim_def)
  have a: "isl (fst (sendSteps user uId autoId (message s) db)) \<longleftrightarrow>
            True \<in> set (take 4 (faults db))"
  proof (cases "True \<in> set (take 4 (faults db))")
    case True
    with sendSteps_rejects [OF True, of user uId autoId "message s"] show ?thesis by simp
  next
    case False
    with sendSteps_resolves [OF False, of user uId autoId "message s"] show ?thesis by simp
  qed
  have b: "message (fst (sendMessage (Some user) (Some uId) autoId (s, db))) = message s \<and>
           message (fst (sendMessage (Some user) (Some uId) autoId (s, db))) \<noteq> [] \<and>
           \<not> sending (fst (sendMessage (Some user) (Some uId) autoId (s, db)))"
    if "True \<in> set (take 4 (faults db))"
    using ne by (simp add: sendMessage_rejected [OF guard that])
  from a b show ?thesis by blast
qed


lemma sendMessage_absent:
  assumes guard: "trim (message s) \<noteq> []" "uid user \<noteq> []" "uId \<noteq> []" "\<not> sending s"
    and healthy: "True \<notin> set (take 4 (faults db))"
    and r: "chatRooms db (chatIdOf (Some (uid user)) (Some uId)) = None"
  shows "sendMessage (Some user) (Some uId) autoId (s, db) =
    (s\<lparr>message := [], sending := False\<rparr>,
     db\<lparr>chatRooms := (chatRooms db)(chatIdOf (Some (uid user)) (Some uId) \<mapsto>
            \<lparr>participants = [uid user, uId],
             lastMessage = Some \<lparr>text_lm = trim (message s), timestamp_lm = ServerTimestamp,
                     senderId_lm = uid user, read_lm = False, senderEmail_lm = None\<rparr>,
             unreadCount = Some [uId \<mapsto> 1],
             createdAt = ServerTimestamp\<rparr>),
        chatMessages := (chatMessages db)(chatIdOf (Some (uid user)) (Some uId) :=
            chatMessages db (chatIdOf (Some (uid user)) (Some uId)) @
            [\<lparr>id_m = autoId, text_m = trim (message s), senderId = uid user,
              senderEmail = email user, timestamp = ServerTimestamp,
              read = False, reactions = None\<rparr>]),
        faults := drop 4 (faults db),
        requests := requests db @
          [GetDoc (roomPath (chatIdOf (Some (uid user)) (Some uId))),
           SetDoc (roomPath (chatIdOf (Some (uid user)) (Some uId))),
           AddDoc (messagesPath (chatIdOf (Some (uid user)) (Some uId))),
           UpdateDoc (roomPath (chatIdOf (Some (uid user)) (Some uId)))]\<rparr>)"
  unfolding sendMessage_resolved [OF guard healthy] sendSteps_absent [OF healthy r]
  by (rule arg_cong [where f = "Pair _"]) (rule snd_conv)

lemma sendMessage_present:
  assumes guard: "trim (message s) \<noteq> []" "uid user \<noteq> []" "uId \<noteq> []" "\<not> sending s"
    and healthy: "True \<notin> set (take 4 (faults db))"
    and r: "chatRooms db (chatIdOf (Some (uid user)) (Some uId)) = Some room"
  shows "sendMessage (Some user) (Some uId) autoId (s, db) =
    (s\<lparr>message := [], sending := False\<rparr>,
     db\<lparr>chatRooms := (chatRooms db)(chatIdOf (Some (uid user)) (Some uId) \<mapsto>
            room\<lparr>unreadCount := Some (incrementedUnread (unreadCount room) uId),
                 lastMessage := Some \<lparr>text_lm = trim (message s), timestamp_lm = ServerTimestamp,
                     senderId_lm = uid user, read_lm = False, senderEmail_lm = None\<rparr>\<rparr>),
        chatMessages := (chatMessages db)(chatIdOf (Some (uid user)) (Some uId) :=
            chatMessages db (chatIdOf (Some (uid user)) (Some uId)) @
            [\<lparr>id_m = autoId, text_m = trim (message s), senderId = uid user,
              senderEmail = email user, timestamp = ServerTimestamp,
              read = False, reactions = None\<rparr>]),
        faults := drop 4 (faults db),
        requests := requests db @
          [GetDoc (roomPath (chatIdOf (Some (uid user)) (Some uId))),
           UpdateDoc (roomPath (chatIdOf (Some (uid user)) (Some uId))),
           AddDoc (messagesPath (chatIdOf (Some (uid user)) (Some uId))),
           UpdateDoc (roomPath (chatIdOf (Some (uid user)) (Some uId)))]\<rparr>)"
  unfolding sendMessage_resolved [OF guard healthy] sendSteps_present [OF healthy r]
  by (rule arg_cong [where f = "Pair _"]) (rule snd_conv)


lemma third_rejected_cases:
  assumes "take 3 fs = [False, False, True]"
  obtains r where "fs = False # False # True # r"
proof -
  from append_take_drop_id [of 3 fs] have "[False, False, True] @ drop 3 fs = fs"
    unfolding assms .
  then have "fs = False # False # True # drop 3 fs" by simp
  then show ?thesis by (rule that)
qed

lemma fourth_rejected_cases:
  assumes "take 4 fs = [False, False, False, True]"
  obtains r where "fs = False # False # False # True # r"
proof -
  from append_take_drop_id [of 4 fs] have "[False, False, False, True] @ drop 4 fs = fs"
    unfolding assms .
  then have "fs = False # False # False # True # drop 4 fs" by simp
  then show ?thesis by (rule that)
qed

lemma sendSteps_present_fourth_rejected:
  assumes h: "take 4 (faults db) = [False, False, False, True]"
    and r: "chatRooms db (chatIdOf (Some (uid user)) (Some uId)) = Some room"
  shows "sendSteps user uId autoId txt db =
    (Inl BackendError,
     db\<lparr>chatRooms := (chatRooms db)(chatIdOf (Some (uid user)) (Some uId) \<mapsto>
            room\<lparr>unreadCount := Some (incrementedUnread (unreadCount room) uId)\<rparr>),
        chatMessages := (chatMessages db)(chatIdOf (Some (uid user)) (Some uId) :=
            chatMessages db (chatIdOf (Some (uid user)) (Some uId)) @
            [\<lparr>id_m = autoId, text_m = trim txt, senderId = uid user,
              senderEmail = email user, timestamp = ServerTimestamp,
              read = False, reactions = None\<rparr>]),
        faults := drop 4 (faults db),
        requests := requests db @
          [GetDoc (roomPath (chatIdOf (Some (uid user)) (Some uId))),
           UpdateDoc (roomPath (chatIdOf (Some (uid user)) (Some uId))),
           AddDoc (messagesPath (chatIdOf (Some (uid user)) (Some uId))),
           UpdateDoc (roomPath (chatIdOf (Some (uid user)) (Some uId)))]\<rparr>)"
  using h
proof (cases rule: fourth_rejected_cases)
  case (1 r')
  with r show ?thesis unfolding sendSteps_def Let_def by (simp add: store_defs)
qed

lemma sendSteps_absent_fourth_rejected:
  assumes h: "take 4 (faults db) = [False, False, False, True]"
    and r: "chatRooms db (chatIdOf (Some (uid user)) (Some uId)) = None"
  shows "sendSteps user uId autoId txt db =
    (Inl BackendError,
     db\<lparr>chatRooms := (chatRooms db)(chatIdOf (Some (uid user)) (Some uId) \<mapsto>
            \<lparr>participants = [uid user, uId],
             lastMessage = Some \<lparr>text_lm = trim txt, timestamp_lm = ServerTimestamp,
                     senderId_lm = uid user, read_lm = False, senderEmail_lm = None\<rparr>,
             unreadCount = Some [uId \<mapsto> 1],
             createdAt = ServerTimestamp\<rparr>),
        chatMessages := (chatMessages db)(chatIdOf (Some (uid user)) (Some uId) :=
            chatMessages db (chatIdOf (Some (uid user)) (Some uId)) @
            [\<lparr>id_m = autoId, text_m = trim txt, senderId = uid user,
              senderEmail = email user, timestamp = ServerTimestamp,
              read = False, reactions = None\<rparr>]),
        faults := drop 4 (faults db),
        requests := requests db @
          [GetDoc (roomPath (chatIdOf (Some (uid user)) (Some uId))),
           SetDoc (roomPath (chatIdOf (Some (uid user)) (Some uId))),
           AddDoc (messagesPath (chatIdOf (Some (uid user)) (Some uId))),
           UpdateDoc (roomPath (chatIdOf (Some (uid user)) (Some uId)))]\<rparr>)"
  using h
proof (cases rule: fourth_rejected_cases)
  case (1 r')
  with r show ?thesis unfolding sendSteps_def Let_def by (simp add: store_defs)
qed

lemma sendSteps_present_third_rejected:
  assumes h: "take 3 (faults db) = [False, False, True]"
    and r: "chatRooms db (chatIdOf (Some (uid user)) (Some uId)) = Some room"
  shows "sendSteps user uId autoId txt db =
    (Inl BackendError,
     db\<lparr>chatRooms := (chatRooms db)(chatIdOf (Some (uid user)) (Some uId) \<mapsto>
            room\<lparr>unreadCount := Some (incrementedUnread (unreadCount room) uId)\<rparr>),
        faults := drop 3 (faults db),
        requests := requests db @
          [GetDoc (roomPath (chatIdOf (Some (uid user)) (Some uId))),
           UpdateDoc (roomPath (chatIdOf (Some (uid user)) (Some uId))),
           AddDoc (messagesPath (chatIdOf (Some (uid user)) (Some uId)))]\<rparr>)"
  using h
proof (cases rule: third_rejected_cases)
  case (1 r')
  with r show ?thesis unfolding sendSteps_def Let_def by (simp add: store_defs)
qed

lemma sendSteps_absent_third_rejected:
  assumes h: "take 3 (faults db) = [False, False, True]"
    and r: "chatRooms db (chatIdOf (Some (uid user)) (Some uId)) = None"
  shows "sendSteps user uId autoId txt db =
    (Inl BackendError,
     db\<lparr>chatRooms := (chatRooms db)(chatIdOf (Some (uid user)) (Some uId) \<mapsto>
            \<lparr>participants = [uid user, uId],
             lastMessage = Some \<lparr>text_lm = trim txt, timestamp_lm = ServerTimestamp,
                     senderId_lm = uid user, read_lm = False, senderEmail_lm = None\<rparr>,
             unreadCount = Some [uId \<mapsto> 1],
             createdAt = ServerTimestamp\<rparr>),
        faults := drop 3 (faults db),
        requests := requests db @
          [GetDoc (roomPath (chatIdOf (Some (uid user)) (Some uId))),
           SetDoc (roomPath (chatIdOf (Some (uid user)) (Some uId))),
           AddDoc (messagesPath (chatIdOf (Some (uid user)) (Some uId)))]\<rparr>)"
  using h
proof (cases rule: third_rejected_cases)
  case (1 r')
  with r show ?thesis unfolding sendSteps_def Let_def by (simp add: store_defs)
qed


text \<open>
  C3. A send that passes the guard (compose buffer non-empty after trimming, user and peer
  known, no send in flight) makes four round trips in this order: the read of the summary
  document, the write of the summary, the append of the message document, and the write
  of the last message.

  When all four succeed: an absent summary document has been created with the two
  participants, the trimmed text as last message and the peer's counter at 1; a present
  one has its last message overwritten and the peer's counter at the value read plus 1;
  the message document is appended with \<open>read = False\<close>; a second send right after a first
  one into a fresh conversation leaves the peer's counter at 2.

  The write before the append creates an absent document in full, but on a present one it
  sets the counter only; the last message of a present document is overwritten after the
  append. So when the fourth round trip is rejected the message is stored and counted
  while a present document still carries its former last message, and when the third is
  rejected the summary is written (created, or counted) and no message is stored.
\<close>

theorem send_counts_appends_then_overwrites:
  fixes s :: Screen and db :: Firestore and user :: AuthUser and uId autoId :: string
  defines "c \<equiv> chatIdOf (Some (uid user)) (Some uId)"
    and "st' \<equiv> sendMessage (Some user) (Some uId) autoId (s, db)"
    and "lm \<equiv> \<lparr>text_lm = trim (message s), timestamp_lm = ServerTimestamp,
                 senderId_lm = uid user, read_lm = False, senderEmail_lm = None\<rparr>"
  assumes guard: "trim (message s) \<noteq> []" "uid user \<noteq> []" "uId \<noteq> []" "\<not> sending s"
  shows "(True \<notin> set (take 4 (faults db)) \<longrightarrow>
         (chatRooms db c = None \<longrightarrow>
            chatRooms (snd st') c =
              Some \<lparr>participants = [uid user, uId], lastMessage = Some lm,
                    unreadCount = Some [uId \<mapsto> 1], createdAt = ServerTimestamp\<rparr>) \<and>
         (\<forall>room. chatRooms db c = Some room \<longrightarrow>
            chatRooms (snd st') c =
              Some (room\<lparr>lastMessage := Some lm,
                         unreadCount := Some ((spread (unreadCount room))
                           (uId \<mapsto> currentUnreadCount (unreadCount room) uId + 1))\<rparr>) \<and>
            (\<forall>n. spread (unreadCount room) uId = Some n \<longrightarrow>
                 currentUnreadCount (unreadCount room) uId = n)) \<and>
         chatMessages (snd st') c =
           chatMessages db c @
           [\<lparr>id_m = autoId, text_m = trim (message s), senderId = uid user,
             senderEmail = email user, timestamp = ServerTimestamp, read = False,
             reactions = None\<rparr>] \<and>
         (\<exists>w \<in> {SetDoc (roomPath c), UpdateDoc (roomPath c)}.
            requests (snd st') =
              requests db @
              [GetDoc (roomPath c), w, AddDoc (messagesPath c), UpdateDoc (roomPath c)]) \<and>
         message (fst st') = [] \<and> \<not> sending (fst st') \<and>
         (\<forall>text2 autoId2.
            chatRooms db c = None \<and> trim text2 \<noteq> [] \<and> True \<notin> set (take 8 (faults db)) \<longrightarrow>
            (\<exists>room2.
               chatRooms (snd (sendMessage (Some user) (Some uId) autoId2
                                 ((fst st')\<lparr>message := text2\<rparr>, snd st'))) c = Some room2 \<and>
               unreadCount room2 = Some [uId \<mapsto> 2]))) \<and>
         (take 4 (faults db) = [False, False, False, True] \<longrightarrow>
            chatMessages (snd st') c =
              chatMessages db c @
              [\<lparr>id_m = autoId, text_m = trim (message s), senderId = uid user,
                senderEmail = email user, timestamp = ServerTimestamp, read = False,
                reactions = None\<rparr>] \<and>
            (chatRooms db c = None \<longrightarrow>
               chatRooms (snd st') c =
                 Some \<lparr>participants = [uid user, uId], lastMessage = Some lm,
                       unreadCount = Some [uId \<mapsto> 1], createdAt = ServerTimestamp\<rparr>) \<and>
            (\<forall>room. chatRooms db c = Some room \<longrightarrow>
               chatRooms (snd st') c =
                 Some (room\<lparr>unreadCount := Some ((spread (unreadCount room))
                              (uId \<mapsto> currentUnreadCount (unreadCount room) uId + 1))\<rparr>)) \<and>
            message (fst st') = message s \<and> \<not> sending (fst st')) \<and>
         (take 3 (faults db) = [False, False, True] \<longrightarrow>
            chatMessages (snd st') c = chatMessages db c \<and>
            (chatRooms db c = None \<longrightarrow>
               chatRooms (snd st') c =
                 Some \<lparr>participants = [uid user, uId], lastMessage = Some lm,
                       unreadCount = Some [uId \<mapsto> 1], createdAt = ServerTimestamp\<rparr>) \<and>
            (\<forall>room. chatRooms db c = Some room \<longrightarrow>
               chatRooms (snd st') c =
                 Some (room\<lparr>unreadCount := Some ((spread (unreadCount room))
                              (uId \<mapsto> currentUnreadCount (unreadCount room) uId + 1))\<rparr>)) \<and>
            message (fst st') = message s \<and> \<not> sending (fst st'))"
proof -
  have A: "(chatRooms db c = None \<longrightarrow>
            chatRooms (snd st') c =
              Some \<lparr>participants = [uid user, uId], lastMessage = Some lm,
                    unreadCount = Some [uId \<mapsto> 1], createdAt = ServerTimestamp\<rparr>) \<and>
         (\<forall>room. chatRooms db c = Some room \<longrightarrow>
            chatRooms (snd st') c =
              Some (room\<lparr>lastMessage := Some lm,
                         unreadCount := Some ((spread (unreadCount room))
                           (uId \<mapsto> currentUnreadCount (unreadCount room) uId + 1))\<rparr>) \<and>
            (\<forall>n. spread (unreadCount room) uId = Some n \<longrightarrow>
                 currentUnreadCount (unreadCount room) uId = n)) \<and>
         chatMessages (snd st') c =
           chatMessages db c @
           [\<lparr>id_m = autoId, text_m = trim (message s), senderId = uid user,
             senderEmail = email user, timestamp = ServerTimestamp, read = False,
             reactions = None\<rparr>] \<and>
         (\<exists>w \<in> {SetDoc (roomPath c), UpdateDoc (roomPath c)}.
            requests (snd st') =
              requests db @
              [GetDoc (roomPath c), w, AddDoc (messagesPath c), UpdateDoc (roomPath c)]) \<and>
         message (fst st') = [] \<and> \<not> sending (fst st') \<and>
         (\<forall>text2 autoId2.
            chatRooms db c = None \<and> trim text2 \<noteq> [] \<and> True \<notin> set (take 8 (faults db)) \<longrightarrow>
            (\<exists>room2.
               chatRooms (snd (sendMessage (Some user) (Some uId) autoId2
                                 ((fst st')\<lparr>message := text2\<rparr>, snd st'))) c = Some room2 \<and>
               unreadCount room2 = Some [uId \<mapsto> 2]))"
    if healthy: "True \<notin> set (take 4 (faults db))"
  proof -
    note abs = sendMessage_absent [OF guard healthy, of autoId, folded c_def]
    note prs = sendMessage_present [OF guard healthy, of _ autoId, folded c_def]
    have 1: "chatRooms db c = None \<longrightarrow>
              chatRooms (snd st') c =
                Some \<lparr>participants = [uid user, uId], lastMessage = Some lm,
                      unreadCount = Some [uId \<mapsto> 1], createdAt = ServerTimestamp\<rparr>"
    proof
      assume r: "chatRooms db c = None"
      show "chatRooms (snd st') c =
                Some \<lparr>participants = [uid user, uId], lastMessage = Some lm,
                      unreadCount = Some [uId \<mapsto> 1], createdAt = ServerTimestamp\<rparr>"
        unfolding st'_def abs [OF r] lm_def by simp
    qed
    have 2: "\<forall>room. chatRooms db c = Some room \<longrightarrow>
              chatRooms (snd st') c =
                Some (room\<lparr>lastMessage := Some lm,
                           unreadCount := Some ((spread (unreadCount room))
                             (uId \<mapsto> currentUnreadCount (unreadCount room) uId + 1))\<rparr>) \<and>
              (\<forall>n. spread (unreadCount room) uId = Some n \<longrightarrow>
                   currentUnreadCount (unreadCount room) uId = n)"
    proof (intro allI impI conjI)
      fix room assume r: "chatRooms db c = Some room"
      show "chatRooms (snd st') c =
                Some (room\<lparr>lastMessage := Some lm,
                           unreadCount := Some ((spread (unreadCount room))
                             (uId \<mapsto> currentUnreadCount (unreadCount room) uId + 1))\<rparr>)"
        unfolding st'_def prs [OF r] lm_def by (simp add: incrementedUnread_def)
    next
      fix room n assume "spread (unreadCount room) uId = Some n"
      then show "currentUnreadCount (unreadCount room) uId = n"
        by (auto simp: spread_def currentUnreadCount_def split: option.splits)
    qed
    have 3: "chatMessages (snd st') c =
             chatMessages db c @
             [\<lparr>id_m = autoId, text_m = trim (message s), senderId = uid user,
               senderEmail = email user, timestamp = ServerTimestamp, read = False,
               reactions = None\<rparr>]"
    proof (cases "chatRooms db c")
      case None
      show ?thesis unfolding st'_def abs [OF None] by simp
    next
      case (Some room)
      show ?thesis unfolding st'_def prs [OF Some] by simp
    qed
    have 4: "\<exists>w \<in> {SetDoc (roomPath c), UpdateDoc (roomPath c)}.
              requests (snd st') =
                requests db @
                [GetDoc (roomPath c), w, AddDoc (messagesPath c), UpdateDoc (roomPath c)]"
    proof (cases "chatRooms db c")
      case None
      show ?thesis unfolding st'_def abs [OF None] by simp
    next
      case (Some room)
      show ?thesis unfolding st'_def prs [OF Some] by simp
    qed
    have 5: "message (fst st') = []" and 6: "\<not> sending (fst st')"
      unfolding st'_def sendMessage_resolved [OF guard healthy] by simp_all
    have 7: "\<forall>text2 autoId2.
              chatRooms db c = None \<and> trim text2 \<noteq> [] \<and> True \<notin> set (take 8 (faults db)) \<longrightarrow>
              (\<exists>room2.
                 chatRooms (snd (sendMessage (Some user) (Some uId) autoId2
                                   ((fst st')\<lparr>message := text2\<rparr>, snd st'))) c = Some room2 \<and>
                 unreadCount room2 = Some [uId \<mapsto> 2])"
    proof (intro allI impI)
      fix text2 autoId2
      assume a: "chatRooms db c = None \<and> trim text2 \<noteq> [] \<and> True \<notin> set (take 8 (faults db))"
      then have fresh: "chatRooms db c = None" and t2: "trim text2 \<noteq> []"
        and h8: "True \<notin> set (take 8 (faults db))" by simp_all
      let ?s1 = "(fst st')\<lparr>message := text2\<rparr>"
      have g1: "trim (message ?s1) \<noteq> []" using t2 by simp
      have g4: "\<not> sending ?s1" using 6 by simp
      have f1: "faults (snd st') = drop 4 (faults db)"
        unfolding st'_def abs [OF fresh] by simp
      have h1: "True \<notin> set (take 4 (faults (snd st')))"
        unfolding f1 using h8 by (rule take4_drop4_of_take8)
      have r1: "chatRooms (snd st') c =
          Some \<lparr>participants = [uid user, uId], lastMessage = Some lm,
                unreadCount = Some [uId \<mapsto> 1], createdAt = ServerTimestamp\<rparr>"
        using 1 fresh by simp
      note second = sendMessage_present [OF g1 guard(2,3) g4 h1, of _ autoId2, folded c_def, OF r1]
      show "\<exists>room2.
                 chatRooms (snd (sendMessage (Some user) (Some uId) autoId2
                                   ((fst st')\<lparr>message := text2\<rparr>, snd st'))) c = Some room2 \<and>
                 unreadCount room2 = Some [uId \<mapsto> 2]"
        unfolding second
        by (simp add: incrementedUnread_def spread_def currentUnreadCount_def)
    qed
    show ?thesis by (intro conjI) (rule 1 2 3 4 5 6 7)+

  qed
  have B: "chatMessages (snd st') c =
              chatMessages db c @
              [\<lparr>id_m = autoId, text_m = trim (message s), senderId = uid user,
                senderEmail = email user, timestamp = ServerTimestamp, read = False,
                reactions = None\<rparr>] \<and>
            (chatRooms db c = None \<longrightarrow>
               chatRooms (snd st') c =
                 Some \<lparr>participants = [uid user, uId], lastMessage = Some lm,
                       unreadCount = Some [uId \<mapsto> 1], createdAt = ServerTimestamp\<rparr>) \<and>
            (\<forall>room. chatRooms db c = Some room \<longrightarrow>
               chatRooms (snd st') c =
                 Some (room\<lparr>unreadCount := Some ((spread (unreadCount room))
                              (uId \<mapsto> currentUnreadCount (unreadCount room) uId + 1))\<rparr>)) \<and>
            message (fst st') = message s \<and> \<not> sending (fst st')"
    if h: "take 4 (faults db) = [False, False, False, True]"
  proof -
    have bad: "True \<in> set (take 4 (faults db))"
      using h by (cases rule: fourth_rejected_cases) simp
    note rej = sendMessage_rejected [OF guard bad, of autoId]
    note absent = sendSteps_absent_fourth_rejected [OF h, of user uId autoId "message s", folded c_def]
    note present = sendSteps_present_fourth_rejected [OF h, of user uId _ autoId "message s", folded c_def]
    have rooms0: "chatRooms db c = None \<longrightarrow>
               chatRooms (snd st') c =
                 Some \<lparr>participants = [uid user, uId], lastMessage = Some lm,
                       unreadCount = Some [uId \<mapsto> 1], createdAt = ServerTimestamp\<rparr>"
    proof
      assume r: "chatRooms db c = None"
      show "chatRooms (snd st') c =
                 Some \<lparr>participants = [uid user, uId], lastMessage = Some lm,
                       unreadCount = Some [uId \<mapsto> 1], createdAt = ServerTimestamp\<rparr>"
        unfolding st'_def rej absent [OF r] lm_def by simp
    qed
    have rooms1: "\<forall>room. chatRooms db c = Some room \<longrightarrow>
               chatRooms (snd st') c =
                 Some (room\<lparr>unreadCount := Some ((spread (unreadCount room))
                              (uId \<mapsto> currentUnreadCount (unreadCount room) uId + 1))\<rparr>)"
    proof (intro allI impI)
      fix room assume r: "chatRooms db c = Some room"
      show "chatRooms (snd st') c =
                 Some (room\<lparr>unreadCount := Some ((spread (unreadCount room))
                              (uId \<mapsto> currentUnreadCount (unreadCount room) uId + 1))\<rparr>)"
        unfolding st'_def rej present [OF r] by (simp add: incrementedUnread_def)
    qed
    have msgs: "chatMessages (snd st') c =
              chatMessages db c @
              [\<lparr>id_m = autoId, text_m = trim (message s), senderId = uid user,
                senderEmail = email user, timestamp = ServerTimestamp, read = False,
                reactions = None\<rparr>]"
    proof (cases "chatRooms db c")
      case None
      show ?thesis unfolding st'_def rej absent [OF None] by simp
    next
      case (Some room)
      show ?thesis unfolding st'_def rej present [OF Some] by simp
    qed
    have scr: "message (fst st') = message s" "\<not> sending (fst st')"
      unfolding st'_def rej by simp_all
    show ?thesis by (intro conjI) (rule msgs rooms0 rooms1 scr)+
  qed
  have C: "chatMessages (snd st') c = chatMessages db c \<and>
            (chatRooms db c = None \<longrightarrow>
               chatRooms (snd st') c =
                 Some \<lparr>participants = [uid user, uId], lastMessage = Some lm,
                       unreadCount = Some [uId \<mapsto> 1], createdAt = ServerTimestamp\<rparr>) \<and>
            (\<forall>room. chatRooms db c = Some room \<longrightarrow>
               chatRooms (snd st') c =
                 Some (room\<lparr>unreadCount := Some ((spread (unreadCount room))
                              (uId \<mapsto> currentUnreadCount (unreadCount room) uId + 1))\<rparr>)) \<and>
            message (fst st') = message s \<and> \<not> sending (fst st')"
    if h: "take 3 (faults db) = [False, False, True]"
  proof -
    have bad: "True \<in> set (take 4 (faults db))"
      using h by (cases rule: third_rejected_cases) simp
    note rej = sendMessage_rejected [OF guard bad, of autoId]
    note absent = sendSteps_absent_third_rejected [OF h, of user uId autoId "message s", folded c_def]
    note present = sendSteps_present_third_rejected [OF h, of user uId _ autoId "message s", folded c_def]
    have rooms0: "chatRooms db c = None \<longrightarrow>
               chatRooms (snd st') c =
                 Some \<lparr>participants = [uid user, uId], lastMessage = Some lm,
                       unreadCount = Some [uId \<mapsto> 1], createdAt = ServerTimestamp\<rparr>"
    proof
      assume r: "chatRooms db c = None"
      show "chatRooms (snd st') c =
                 Some \<lparr>participants = [uid user, uId], lastMessage = Some lm,
                       unreadCount = Some [uId \<mapsto> 1], createdAt = ServerTimestamp\<rparr>"
        unfolding st'_def rej absent [OF r] lm_def by simp
    qed
    have rooms1: "\<forall>room. chatRooms db c = Some room \<longrightarrow>
               chatRooms (snd st') c =
                 Some (room\<lparr>unreadCount := Some ((spread (unreadCount room))
                              (uId \<mapsto> currentUnreadCount (unreadCount room) uId + 1))\<rparr>)"
    proof (intro allI impI)
      fix room assume r: "chatRooms db c = Some room"
      show "chatRooms (snd st') c =
                 Some (room\<lparr>unreadCount := Some ((spread (unreadCount room))
                              (uId \<mapsto> currentUnreadCount (unreadCount room) uId + 1))\<rparr>)"
        unfolding st'_def rej present [OF r] by (simp add: incrementedUnread_def)
    qed
    have msgs: "chatMessages (snd st') c = chatMessages db c"
    proof (cases "chatRooms db c")
      case None
      show ?thesis unfolding st'_def rej absent [OF None] by simp
    next
      case (Some room)
      show ?thesis unfolding st'_def rej present [OF Some] by simp
    qed
    have scr: "message (fst st') = message s" "\<not> sending (fst st')"
      unfolding st'_def rej by simp_all
    show ?thesis by (intro conjI) (rule msgs rooms0 rooms1 scr)+
  qed
  show ?thesis
  proof (rule conjI [OF impI conjI [OF impI impI]])
    assume "True \<notin> set (take 4 (faults db))"
    then show "(chatRooms db c = None \<longrightarrow>
            chatRooms (snd st') c =
              Some \<lparr>participants = [uid user, uId], lastMessage = Some lm,
                    unreadCount = Some [uId \<mapsto> 1], createdAt = ServerTimestamp\<rparr>) \<and>
         (\<forall>room. chatRooms db c = Some room \<longrightarrow>
            chatRooms (snd st') c =
              Some (room\<lparr>lastMessage := Some lm,
                         unreadCount := Some ((spread (unreadCount room))
                           (uId \<mapsto> currentUnreadCount (unreadCount room) uId + 1))\<rparr>) \<and>
            (\<forall>n. spread (unreadCount room) uId = Some n \<longrightarrow>
                 currentUnreadCount (unreadCount room) uId = n)) \<and>
         chatMessages (snd st') c =
           chatMessages db c @
           [\<lparr>id_m = autoId, text_m = trim (message s), senderId = uid user,
             senderEmail = email user, timestamp = ServerTimestamp, read = False,
             reactions = None\<rparr>] \<and>
         (\<exists>w \<in> {SetDoc (roomPath c), UpdateDoc (roomPath c)}.
            requests (snd st') =
              requests db @
              [GetDoc (roomPath c), w, AddDoc (messagesPath c), UpdateDoc (roomPath c)]) \<and>
         message (fst st') = [] \<and> \<not> sending (fst st') \<and>
         (\<forall>text2 autoId2.
            chatRooms db c = None \<and> trim text2 \<noteq> [] \<and> True \<notin> set (take 8 (faults db)) \<longrightarrow>
            (\<exists>room2.
               chatRooms (snd (sendMessage (Some user) (Some uId) autoId2
                                 ((fst st')\<lparr>message := text2\<rparr>, snd st'))) c = Some room2 \<and>
               unreadCount room2 = Some [uId \<mapsto> 2]))"
      by (rule A)
  next
    assume "take 4 (faults db) = [False, False, False, True]"
    then show "chatMessages (snd st') c =
              chatMessages db c @
              [\<lparr>id_m = autoId, text_m = trim (message s), senderId = uid user,
                senderEmail = email user, timestamp = ServerTimestamp, read = False,
                reactions = None\<rparr>] \<and>
            (chatRooms db c = None \<longrightarrow>
               chatRooms (snd st') c =
                 Some \<lparr>participants = [uid user, uId], lastMessage = Some lm,
                       unreadCount = Some [uId \<mapsto> 1], createdAt = ServerTimestamp\<rparr>) \<and>
            (\<forall>room. chatRooms db c = Some room \<longrightarrow>
               chatRooms (snd st') c =
                 Some (room\<lparr>unreadCount := Some ((spread (unreadCount room))
                              (uId \<mapsto> currentUnreadCount (unreadCount room) uId + 1))\<rparr>)) \<and>
            message (fst st') = message s \<and> \<not> sending (fst st')"
      by (rule B)
  next
    assume "take 3 (faults db) = [False, False, True]"
    then show "chatMessages (snd st') c = chatMessages db c \<and>
            (chatRooms db c = None \<longrightarrow>
               chatRooms (snd st') c =
                 Some \<lparr>participants = [uid user, uId], lastMessage = Some lm,
                       unreadCount = Some [uId \<mapsto> 1], createdAt = ServerTimestamp\<rparr>) \<and>
            (\<forall>room. chatRooms db c = Some room \<longrightarrow>
               chatRooms (snd st') c =
                 Some (room\<lparr>unreadCount := Some ((spread (unreadCount room))
                              (uId \<mapsto> currentUnreadCount (unreadCount room) uId + 1))\<rparr>)) \<and>
            message (fst st') = message s \<and> \<not> sending (fst st')"
      by (rule C)
  qed
qed


lemma healthy3_cases:
  assumes "True \<notin> set (take 3 fs)"
  obtains "fs = []" | "fs = [False]" | "fs = [False, False]"
  | r where "fs = False # False # False # r"
proof (cases fs)
  case Nil
  then show ?thesis using that(1) by simp
next
  case c1: (Cons f1 fs1)
  show ?thesis
  proof (cases fs1)
    case Nil
    with c1 assms show ?thesis using that(2) by simp
  next
    case c2: (Cons f2 fs2)
    show ?thesis
    proof (cases fs2)
      case Nil
      with c1 c2 assms show ?thesis using that(3) by simp
    next
      case (Cons f3 fs3)
      with c1 c2 assms show ?thesis using that(4) [of fs3] by simp
    qed
  qed
qed

lemma sendSteps_v2_present:
  assumes h: "True \<notin> set (take 3 (faults db))"
    and r: "chatRooms db (chatIdOf (Some (uid user)) (Some uId)) = Some room"
  shows "sendSteps_v2 (Some user) (Some uId) autoId txt db =
    (Inr (),
     db\<lparr>chatRooms := (chatRooms db)(chatIdOf (Some (uid user)) (Some uId) \<mapsto>
            room\<lparr>lastMessage := Some \<lparr>text_lm = trim txt, timestamp_lm = ServerTimestamp,
                     senderId_lm = uid user, read_lm = False, senderEmail_lm = email user\<rparr>,
                 unreadCount := Some (incrementedUnread (unreadCount room) uId)\<rparr>),
        chatMessages := (chatMessages db)(chatIdOf (Some (uid user)) (Some uId) :=
            chatMessages db (chatIdOf (Some (uid user)) (Some uId)) @
            [\<lparr>id_m = autoId, text_m = trim txt, senderId = uid user,
              senderEmail = email user, timestamp = ServerTimestamp,
              read = False, reactions = None\<rparr>]),
        faults := drop 3 (faults db),
        requests := requests db @
          [GetDoc (roomPath (chatIdOf (Some (uid user)) (Some uId))),
           UpdateDoc (roomPath (chatIdOf (Some (uid user)) (Some uId))),
           AddDoc (messagesPath (chatIdOf (Some (uid user)) (Some uId)))]\<rparr>)"
  using h
proof (cases rule: healthy3_cases)
  case 1
  with r show ?thesis unfolding sendSteps_v2_def Let_def
    by (simp add: store_defs currentUid_def keyOf_def)
next
  case 2
  with r show ?thesis unfolding sendSteps_v2_def Let_def
    by (simp add: store_defs currentUid_def keyOf_def)
next
  case 3
  with r show ?thesis unfolding sendSteps_v2_def Let_def
    by (simp add: store_defs currentUid_def keyOf_def)
next
  case (4 r')
  with r show ?thesis unfolding sendSteps_v2_def Let_def
    by (simp add: store_defs currentUid_def keyOf_def)
qed

lemma sendMessage_v2_present:
  assumes guard: "trim (message s) \<noteq> []" "\<not> sending s"
    and h: "True \<notin> set (take 3 (faults db))"
    and r: "chatRooms db (chatIdOf (Some (uid user)) (Some uId)) = Some room"
  shows "chatRooms (snd (sendMessage_v2 (Some user) (Some uId) autoId (s, db)))
           (chatIdOf (Some (uid user)) (Some uId)) =
         Some (room\<lparr>lastMessage := Some \<lparr>text_lm = trim (message s),
                       timestamp_lm = ServerTimestamp, senderId_lm = uid user,
                       read_lm = False, senderEmail_lm = email user\<rparr>,
                    unreadCount := Some (incrementedUnread (unreadCount room) uId)\<rparr>)"
  using guard by (simp add: sendMessage_v2_def sendSteps_v2_present [OF h r])

lemma incrementedUnread_absent:
  assumes "spread obj k = None"
  shows "incrementedUnread obj k k = Some 1"
    and "j \<noteq> k \<Longrightarrow> incrementedUnread obj k j = spread obj j"
  using assms
  by (auto simp: incrementedUnread_def spread_def currentUnreadCount_def split: option.splits)

text \<open>
  C10. In both versions of \<^verbatim>\<open>sendMessage\<close>: when the summary document exists and its
  counter map has no entry for the peer (or there is no counter map), a successful send
  writes a counter map in which the peer's entry is 1 and every other entry, the sender's
  own included, is what it was.
\<close>

theorem send_counts_missing_unread_entry_from_zero:
  fixes s :: Screen and db :: Firestore and user :: AuthUser and uId autoId :: string
  defines "c \<equiv> chatIdOf (Some (uid user)) (Some uId)"
  assumes guard: "trim (message s) \<noteq> []" "\<not> sending s"
    and r: "chatRooms db c = Some room"
    and missing: "spread (unreadCount room) uId = None"
  shows "(uid user \<noteq> [] \<and> uId \<noteq> [] \<and> True \<notin> set (take 4 (faults db)) \<longrightarrow>
            (\<exists>room' m.
               chatRooms (snd (sendMessage (Some user) (Some uId) autoId (s, db))) c = Some room' \<and>
               unreadCount room' = Some m \<and> m uId = Some 1 \<and>
               (\<forall>k. k \<noteq> uId \<longrightarrow> m k = spread (unreadCount room) k) \<and>
               (uid user \<noteq> uId \<longrightarrow> m (uid user) = spread (unreadCount room) (uid user)))) \<and>
         (True \<notin> set (take 3 (faults db)) \<longrightarrow>
            (\<exists>room' m.
               chatRooms (snd (sendMessage_v2 (Some user) (Some uId) autoId (s, db))) c = Some room' \<and>
               unreadCount room' = Some m \<and> m uId = Some 1 \<and>
               (\<forall>k. k \<noteq> uId \<longrightarrow> m k = spread (unreadCount room) k) \<and>
               (uid user \<noteq> uId \<longrightarrow> m (uid user) = spread (unreadCount room) (uid user))))"
proof (intro conjI impI)
  assume a: "uid user \<noteq> [] \<and> uId \<noteq> [] \<and> True \<notin> set (take 4 (faults db))"
  then have g: "uid user \<noteq> []" "uId \<noteq> []" and h: "True \<notin> set (take 4 (faults db))"
    by simp_all
  note res = sendMessage_present [OF guard(1) g guard(2) h r [unfolded c_def], of autoId]
  let ?m = "incrementedUnread (unreadCount room) uId"
  let ?room' = "room\<lparr>unreadCount := Some ?m,
                     lastMessage := Some \<lparr>text_lm = trim (message s),
                       timestamp_lm = ServerTimestamp, senderId_lm = uid user,
                       read_lm = False, senderEmail_lm = None\<rparr>\<rparr>"
  have 1: "chatRooms (snd (sendMessage (Some user) (Some uId) autoId (s, db))) c = Some ?room'"
    unfolding res c_def by simp
  have 2: "unreadCount ?room' = Some ?m" by simp
  from 1 2 incrementedUnread_absent [OF missing]
  show "\<exists>room' m.
               chatRooms (snd (sendMessage (Some user) (Some uId) autoId (s, db))) c = Some room' \<and>
               unreadCount room' = Some m \<and> m uId = Some 1 \<and>
               (\<forall>k. k \<noteq> uId \<longrightarrow> m k = spread (unreadCount room) k) \<and>
               (uid user \<noteq> uId \<longrightarrow> m (uid user) = spread (unreadCount room) (uid user))"
    by blast
next
  assume h: "True \<notin> set (take 3 (faults db))"
  let ?m = "incrementedUnread (unreadCount room) uId"
  let ?room' = "room\<lparr>lastMessage := Some \<lparr>text_lm = trim (message s),
                       timestamp_lm = ServerTimestamp, senderId_lm = uid user,
                       read_lm = False, senderEmail_lm = email user\<rparr>,
                     unreadCount := Some ?m\<rparr>"
  have 1: "chatRooms (snd (sendMessage_v2 (Some user) (Some uId) autoId (s, db))) c = Some ?room'"
    unfolding c_def by (rule sendMessage_v2_present [OF guard h r [unfolded c_def]])
  have 2: "unreadCount ?room' = Some ?m" by simp
  from 1 2 incrementedUnread_absent [OF missing]
  show "\<exists>room' m.
               chatRooms (snd (sendMessage_v2 (Some user) (Some uId) autoId (s, db))) c = Some room' \<and>
               unreadCount room' = Some m \<and> m uId = Some 1 \<and>
               (\<forall>k. k \<noteq> uId \<longrightarrow> m k = spread (unreadCount room) k) \<and>
               (uid user \<noteq> uId \<longrightarrow> m (uid user) = spread (unreadCount room) (uid user))"
    by blast
qed


lemma ex_chatId: "chatIdOf (Some ''A'') (Some ''B'') = ''A_B''"
  by (simp add: chatIdOf_def)


lemma ex_trim: "trim '' hi '' = ''hi''"
  by (simp add: trim_def isWhiteSpace1_def isWhiteSpace2_def isWhiteSpace3_def)

lemma trim_examples:
  "trim [CHR 0xC2, CHR 0xA0, CHR ''h'', CHR ''i'', CHR 0xC2, CHR 0xA0] = ''hi''"
  "trim [CHR 0xE3, CHR 0x80, CHR 0x80] = []"
  "trim [CHR 0xEF, CHR 0xBB, CHR 0xBF, CHR ''a'', CHR 0x20, CHR ''b'', CHR 0xE2, CHR 0x80, CHR 0x83, CHR 0x0A] =
     ''a b''"
  by (simp_all add: trim_def isWhiteSpace1_def isWhiteSpace2_def isWhiteSpace3_def)

theorem send_counts_appends_then_overwrites_witness:
  "trim (message exCompose) \<noteq> [] \<and> uid exAlice \<noteq> [] \<and> ''B'' \<noteq> [] \<and> \<not> sending exCompose \<and>
   True \<notin> set (take 8 (faults exEmptyDb)) \<and> chatRooms exEmptyDb ''A_B'' = None \<and>
   chatRooms (snd (sendMessage (Some exAlice) (Some ''B'') ''m1'' (exCompose, exEmptyDb))) ''A_B'' =
     Some \<lparr>participants = [''A'', ''B''],
           lastMessage = Some \<lparr>text_lm = ''hi'', timestamp_lm = ServerTimestamp,
                               senderId_lm = ''A'', read_lm = False, senderEmail_lm = None\<rparr>,
           unreadCount = Some [''B'' \<mapsto> 1], createdAt = ServerTimestamp\<rparr> \<and>
   chatMessages (snd (sendMessage (Some exAlice) (Some ''B'') ''m1'' (exCompose, exEmptyDb))) ''A_B'' =
     [\<lparr>id_m = ''m1'', text_m = ''hi'', senderId = ''A'', senderEmail = Some ''a@example.org'',
       timestamp = ServerTimestamp, read = False, reactions = None\<rparr>] \<and>
   (\<exists>room2.
      chatRooms (snd (sendMessage (Some exAlice) (Some ''B'') ''m2''
        ((fst (sendMessage (Some exAlice) (Some ''B'') ''m1'' (exCompose, exEmptyDb)))
           \<lparr>message := ''there''\<rparr>,
         snd (sendMessage (Some exAlice) (Some ''B'') ''m1'' (exCompose, exEmptyDb))))) ''A_B'' =
        Some room2 \<and>
      unreadCount room2 = Some [''B'' \<mapsto> 2]) \<and>
   chatRooms exCountedDb ''A_B'' = Some (exRoom\<lparr>unreadCount := Some [''A'' \<mapsto> 3, ''B'' \<mapsto> 4]\<rparr>) \<and>
   chatRooms (snd (sendMessage (Some exAlice) (Some ''B'') ''m1'' (exCompose, exCountedDb))) ''A_B'' =
     Some (exRoom\<lparr>lastMessage := Some \<lparr>text_lm = ''hi'', timestamp_lm = ServerTimestamp,
                               senderId_lm = ''A'', read_lm = False, senderEmail_lm = None\<rparr>,
                 unreadCount := Some [''A'' \<mapsto> 3, ''B'' \<mapsto> 5]\<rparr>) \<and>
   take 4 (faults exLastWriteRejectedDb) = [False, False, False, True] \<and>
   chatRooms exLastWriteRejectedDb ''A_B'' = Some exRoom \<and>
   chatMessages (snd (sendMessage (Some exAlice) (Some ''B'') ''m1'' (exCompose, exLastWriteRejectedDb)))
     ''A_B'' =
     [\<lparr>id_m = ''m1'', text_m = ''hi'', senderId = ''A'', senderEmail = Some ''a@example.org'',
       timestamp = ServerTimestamp, read = False, reactions = None\<rparr>] \<and>
   chatRooms (snd (sendMessage (Some exAlice) (Some ''B'') ''m1'' (exCompose, exLastWriteRejectedDb)))
     ''A_B'' =
     Some (exRoom\<lparr>unreadCount := Some [''A'' \<mapsto> 3, ''B'' \<mapsto> 1]\<rparr>) \<and>
   take 3 (faults exFaultyDb) = [False, False, True] \<and> chatRooms exFaultyDb ''A_B'' = None \<and>
   chatMessages (snd (sendMessage (Some exAlice) (Some ''B'') ''m1'' (exCompose, exFaultyDb))) ''A_B'' =
     [] \<and>
   chatRooms (snd (sendMessage (Some exAlice) (Some ''B'') ''m1'' (exCompose, exFaultyDb))) ''A_B'' =
     Some \<lparr>participants = [''A'', ''B''],
           lastMessage = Some \<lparr>text_lm = ''hi'', timestamp_lm = ServerTimestamp,
                               senderId_lm = ''A'', read_lm = False, senderEmail_lm = None\<rparr>,
           unreadCount = Some [''B'' \<mapsto> 1], createdAt = ServerTimestamp\<rparr>"
proof -
  have g1: "trim (message exCompose) \<noteq> []" by (simp add: exCompose_def ex_trim)
  have g2: "uid exAlice \<noteq> []" by (simp add: exAlice_def)
  have g3: "''B'' \<noteq> []" by simp
  have g4: "\<not> sending exCompose" by (simp add: exCompose_def)
  have h8: "True \<notin> set (take 8 (faults exEmptyDb))" by (simp add: exEmptyDb_def)
  have h4: "True \<notin> set (take 4 (faults exEmptyDb))" by (simp add: exEmptyDb_def)
  have h4': "True \<notin> set (take 4 (faults exCountedDb))"
    by (simp add: exCountedDb_def exEmptyDb_def)
  have c: "chatIdOf (Some (uid exAlice)) (Some ''B'') = ''A_B''"
    by (simp add: exAlice_def ex_chatId)
  have fresh: "chatRooms exEmptyDb ''A_B'' = None" by (simp add: exEmptyDb_def)
  have counted: "chatRooms exCountedDb ''A_B'' =
      Some (exRoom\<lparr>unreadCount := Some [''A'' \<mapsto> 3, ''B'' \<mapsto> 4]\<rparr>)"
    by (simp add: exCountedDb_def exEmptyDb_def)
  have t: "trim (message exCompose) = ''hi''" by (simp add: exCompose_def ex_trim)
  have t2: "trim ''there'' \<noteq> []" by (simp add: trim_def isWhiteSpace1_def isWhiteSpace2_def isWhiteSpace3_def)
  have rej4: "take 4 (faults exLastWriteRejectedDb) = [False, False, False, True]"
    by (simp add: exLastWriteRejectedDb_def exRoomDb_def exEmptyDb_def)
  have rej3: "take 3 (faults exFaultyDb) = [False, False, True]"
    by (simp add: exFaultyDb_def exEmptyDb_def)
  have room4: "chatRooms exLastWriteRejectedDb ''A_B'' = Some exRoom"
    by (simp add: exLastWriteRejectedDb_def exRoomDb_def exEmptyDb_def)
  have room3: "chatRooms exFaultyDb ''A_B'' = None"
    by (simp add: exFaultyDb_def exEmptyDb_def)
  note T = send_counts_appends_then_overwrites
    [OF g1 g2 g3 g4, where db = exEmptyDb and autoId = "''m1''", unfolded c t,
     THEN conjunct1, THEN mp, OF h4]
  note U = send_counts_appends_then_overwrites
    [OF g1 g2 g3 g4, where db = exCountedDb and autoId = "''m1''", unfolded c t,
     THEN conjunct1, THEN mp, OF h4']
  note V = send_counts_appends_then_overwrites
    [OF g1 g2 g3 g4, where db = exLastWriteRejectedDb and autoId = "''m1''", unfolded c t,
     THEN conjunct2, THEN conjunct1, THEN mp, OF rej4]
  note W = send_counts_appends_then_overwrites
    [OF g1 g2 g3 g4, where db = exFaultyDb and autoId = "''m1''", unfolded c t,
     THEN conjunct2, THEN conjunct2, THEN mp, OF rej3]
  from V have 5:
    "chatMessages (snd (sendMessage (Some exAlice) (Some ''B'') ''m1'' (exCompose, exLastWriteRejectedDb)))
     ''A_B'' =
     [\<lparr>id_m = ''m1'', text_m = ''hi'', senderId = ''A'', senderEmail = Some ''a@example.org'',
       timestamp = ServerTimestamp, read = False, reactions = None\<rparr>]"
    by (simp add: exAlice_def exLastWriteRejectedDb_def exRoomDb_def exEmptyDb_def)
  from V room4 have 6:
    "chatRooms (snd (sendMessage (Some exAlice) (Some ''B'') ''m1'' (exCompose, exLastWriteRejectedDb)))
     ''A_B'' =
     Some (exRoom\<lparr>unreadCount := Some [''A'' \<mapsto> 3, ''B'' \<mapsto> 1]\<rparr>)"
    by (simp add: exRoom_def spread_def currentUnreadCount_def)
  from W have 7:
    "chatMessages (snd (sendMessage (Some exAlice) (Some ''B'') ''m1'' (exCompose, exFaultyDb))) ''A_B'' =
     []"
    by (simp add: exFaultyDb_def exEmptyDb_def)
  from W room3 have 8:
    "chatRooms (snd (sendMessage (Some exAlice) (Some ''B'') ''m1'' (exCompose, exFaultyDb))) ''A_B'' =
     Some \<lparr>participants = [''A'', ''B''],
           lastMessage = Some \<lparr>text_lm = ''hi'', timestamp_lm = ServerTimestamp,
                               senderId_lm = ''A'', read_lm = False, senderEmail_lm = None\<rparr>,
           unreadCount = Some [''B'' \<mapsto> 1], createdAt = ServerTimestamp\<rparr>"
    by (simp add: exAlice_def)
  from T fresh have 1:
    "chatRooms (snd (sendMessage (Some exAlice) (Some ''B'') ''m1'' (exCompose, exEmptyDb))) ''A_B'' =
     Some \<lparr>participants = [''A'', ''B''],
           lastMessage = Some \<lparr>text_lm = ''hi'', timestamp_lm = ServerTimestamp,
                               senderId_lm = ''A'', read_lm = False, senderEmail_lm = None\<rparr>,
           unreadCount = Some [''B'' \<mapsto> 1], createdAt = ServerTimestamp\<rparr>"
    by (simp add: exAlice_def)
  from T fresh have 2:
    "chatMessages (snd (sendMessage (Some exAlice) (Some ''B'') ''m1'' (exCompose, exEmptyDb))) ''A_B'' =
     [\<lparr>id_m = ''m1'', text_m = ''hi'', senderId = ''A'', senderEmail = Some ''a@example.org'',
       timestamp = ServerTimestamp, read = False, reactions = None\<rparr>]"
    by (simp add: exAlice_def exEmptyDb_def)
  from T have "\<forall>text2 autoId2.
      chatRooms exEmptyDb ''A_B'' = None \<and> trim text2 \<noteq> [] \<and>
      True \<notin> set (take 8 (faults exEmptyDb)) \<longrightarrow>
      (\<exists>room2.
         chatRooms (snd (sendMessage (Some exAlice) (Some ''B'') autoId2
           ((fst (sendMessage (Some exAlice) (Some ''B'') ''m1'' (exCompose, exEmptyDb)))
              \<lparr>message := text2\<rparr>,
            snd (sendMessage (Some exAlice) (Some ''B'') ''m1'' (exCompose, exEmptyDb))))) ''A_B'' =
           Some room2 \<and>
         unreadCount room2 = Some [''B'' \<mapsto> 2])"
    by (elim conjE)
  with fresh t2 h8 have 3: "\<exists>room2.
      chatRooms (snd (sendMessage (Some exAlice) (Some ''B'') ''m2''
        ((fst (sendMessage (Some exAlice) (Some ''B'') ''m1'' (exCompose, exEmptyDb)))
           \<lparr>message := ''there''\<rparr>,
         snd (sendMessage (Some exAlice) (Some ''B'') ''m1'' (exCompose, exEmptyDb))))) ''A_B'' =
        Some room2 \<and>
      unreadCount room2 = Some [''B'' \<mapsto> 2]"
    by blast
  from U counted have 4:
    "chatRooms (snd (sendMessage (Some exAlice) (Some ''B'') ''m1'' (exCompose, exCountedDb))) ''A_B'' =
     Some (exRoom\<lparr>lastMessage := Some \<lparr>text_lm = ''hi'', timestamp_lm = ServerTimestamp,
                               senderId_lm = ''A'', read_lm = False, senderEmail_lm = None\<rparr>,
                 unreadCount := Some [''A'' \<mapsto> 3, ''B'' \<mapsto> 5]\<rparr>)"
    by (simp add: exAlice_def spread_def currentUnreadCount_def)
  from g1 g2 g3 g4 h8 fresh 1 2 3 counted 4 rej4 room4 5 6 rej3 room3 7 8
  show ?thesis by (intro conjI)
qed

text \<open>
  A send of \<open>hi\<close> into the existing conversation whose fourth round trip is rejected: the
  message document is stored, and the summary document still has \<open>yo\<close> as its last
  message. The last message is therefore not overwritten before the append.
\<close>

theorem send_appends_under_old_last_message_counterexample:
  "trim (message exCompose) = ''hi'' \<and>
   chatRooms exLastWriteRejectedDb ''A_B'' = Some exRoom \<and>
   chatMessages (snd (sendMessage (Some exAlice) (Some ''B'') ''m1'' (exCompose, exLastWriteRejectedDb)))
     ''A_B'' =
     [\<lparr>id_m = ''m1'', text_m = ''hi'', senderId = ''A'', senderEmail = Some ''a@example.org'',
       timestamp = ServerTimestamp, read = False, reactions = None\<rparr>] \<and>
   map_option lastMessage
     (chatRooms (snd (sendMessage (Some exAlice) (Some ''B'') ''m1'' (exCompose, exLastWriteRejectedDb)))
        ''A_B'') =
     Some (Some \<lparr>text_lm = ''yo'', timestamp_lm = Millis 5, senderId_lm = ''B'',
                       read_lm = True, senderEmail_lm = None\<rparr>)"
proof -
  have g1: "trim (message exCompose) \<noteq> []" by (simp add: exCompose_def ex_trim)
  have g2: "uid exAlice \<noteq> []" by (simp add: exAlice_def)
  have g3: "''B'' \<noteq> []" by simp
  have g4: "\<not> sending exCompose" by (simp add: exCompose_def)
  have t: "trim (message exCompose) = ''hi''" by (simp add: exCompose_def ex_trim)
  have c: "chatIdOf (Some (uid exAlice)) (Some ''B'') = ''A_B''"
    by (simp add: exAlice_def ex_chatId)
  have rej4: "take 4 (faults exLastWriteRejectedDb) = [False, False, False, True]"
    by (simp add: exLastWriteRejectedDb_def exRoomDb_def exEmptyDb_def)
  have bad: "True \<in> set (take 4 (faults exLastWriteRejectedDb))" unfolding rej4 by simp
  have room0: "chatRooms exLastWriteRejectedDb ''A_B'' = Some exRoom"
    by (simp add: exLastWriteRejectedDb_def exRoomDb_def exEmptyDb_def)
  have room: "chatRooms exLastWriteRejectedDb (chatIdOf (Some (uid exAlice)) (Some ''B'')) =
              Some exRoom"
    unfolding c by (rule room0)
  note st = sendMessage_rejected [OF g1 g2 g3 g4 bad, of "''m1''"]
  note steps = sendSteps_present_fourth_rejected
    [OF rej4 room, of "''m1''" "message exCompose", unfolded c t]
  have 1: "chatMessages (snd (sendMessage (Some exAlice) (Some ''B'') ''m1''
                               (exCompose, exLastWriteRejectedDb))) ''A_B'' =
     [\<lparr>id_m = ''m1'', text_m = ''hi'', senderId = ''A'', senderEmail = Some ''a@example.org'',
       timestamp = ServerTimestamp, read = False, reactions = None\<rparr>]"
    unfolding st steps
    by (simp add: exAlice_def exLastWriteRejectedDb_def exRoomDb_def exEmptyDb_def)
  have 2: "map_option lastMessage
     (chatRooms (snd (sendMessage (Some exAlice) (Some ''B'') ''m1''
                        (exCompose, exLastWriteRejectedDb))) ''A_B'') =
     Some (Some \<lparr>text_lm = ''yo'', timestamp_lm = Millis 5, senderId_lm = ''B'',
                       read_lm = True, senderEmail_lm = None\<rparr>)"
    unfolding st steps by (simp add: exRoom_def)
  from t room0 1 2 show ?thesis by (intro conjI)
qed

theorem failed_send_keeps_buffer_witness:
  "trim (message exCompose) \<noteq> [] \<and> uid exAlice \<noteq> [] \<and> ''B'' \<noteq> [] \<and> \<not> sending exCompose \<and>
   True \<in> set (take 4 (faults exFaultyDb)) \<and>
   message (fst (sendMessage (Some exAlice) (Some ''B'') ''m1'' (exCompose, exFaultyDb))) = '' hi '' \<and>
   \<not> sending (fst (sendMessage (Some exAlice) (Some ''B'') ''m1'' (exCompose, exFaultyDb))) \<and>
   True \<notin> set (take 4 (faults exEmptyDb)) \<and>
   \<not> isl (fst (sendSteps exAlice ''B'' ''m1'' (message exCompose) exEmptyDb))"
proof -
  have g1: "trim (message exCompose) \<noteq> []" by (simp add: exCompose_def ex_trim)
  have g2: "uid exAlice \<noteq> []" by (simp add: exAlice_def)
  have g3: "''B'' \<noteq> []" by simp
  have g4: "\<not> sending exCompose" by (simp add: exCompose_def)
  have bad: "True \<in> set (take 4 (faults exFaultyDb))"
    by (simp add: exFaultyDb_def exEmptyDb_def)
  have good: "True \<notin> set (take 4 (faults exEmptyDb))" by (simp add: exEmptyDb_def)
  have m: "message exCompose = '' hi ''" by (simp add: exCompose_def)
  from failed_send_keeps_buffer [OF g1 g2 g3 g4, of "''m1''" exFaultyDb] bad m
  have 1: "message (fst (sendMessage (Some exAlice) (Some ''B'') ''m1'' (exCompose, exFaultyDb))) = '' hi '' \<and>
   \<not> sending (fst (sendMessage (Some exAlice) (Some ''B'') ''m1'' (exCompose, exFaultyDb)))"
    by simp
  from failed_send_keeps_buffer [OF g1 g2 g3 g4, of "''m1''" exEmptyDb] good
  have 2: "\<not> isl (fst (sendSteps exAlice ''B'' ''m1'' (message exCompose) exEmptyDb))"
    by simp
  from g1 g2 g3 g4 bad good 1 2 show ?thesis by (intro conjI) simp_all
qed

theorem send_counts_missing_unread_entry_from_zero_witness:
  "trim (message exCompose) \<noteq> [] \<and> \<not> sending exCompose \<and> chatRooms exRoomDb ''A_B'' = Some exRoom \<and>
   spread (unreadCount exRoom) ''B'' = None \<and> uid exAlice \<noteq> ''B'' \<and>
   True \<notin> set (take 4 (faults exRoomDb)) \<and>
   (\<exists>room' m.
      chatRooms (snd (sendMessage (Some exAlice) (Some ''B'') ''m1'' (exCompose, exRoomDb))) ''A_B'' =
        Some room' \<and>
      unreadCount room' = Some m \<and> m ''B'' = Some 1 \<and> m ''A'' = Some 3) \<and>
   (\<exists>room' m.
      chatRooms (snd (sendMessage_v2 (Some exAlice) (Some ''B'') ''m1'' (exCompose, exRoomDb))) ''A_B'' =
        Some room' \<and>
      unreadCount room' = Some m \<and> m ''B'' = Some 1 \<and> m ''A'' = Some 3)"
proof -
  have g1: "trim (message exCompose) \<noteq> []" by (simp add: exCompose_def ex_trim)
  have g4: "\<not> sending exCompose" by (simp add: exCompose_def)
  have c: "chatIdOf (Some (uid exAlice)) (Some ''B'') = ''A_B''"
    by (simp add: exAlice_def ex_chatId)
  have r: "chatRooms exRoomDb ''A_B'' = Some exRoom" by (simp add: exRoomDb_def exEmptyDb_def)
  have r': "chatRooms exRoomDb (chatIdOf (Some (uid exAlice)) (Some ''B'')) = Some exRoom"
    unfolding c by (rule r)
  have miss: "spread (unreadCount exRoom) ''B'' = None" by (simp add: exRoom_def spread_def)
  have own: "spread (unreadCount exRoom) ''A'' = Some 3" by (simp add: exRoom_def spread_def)
  have ne: "uid exAlice \<noteq> ''B''" by (simp add: exAlice_def)
  have u: "uid exAlice = ''A''" by (simp add: exAlice_def)
  have h: "True \<notin> set (take 4 (faults exRoomDb))" by (simp add: exRoomDb_def exEmptyDb_def)
  have h3: "True \<notin> set (take 3 (faults exRoomDb))" by (simp add: exRoomDb_def exEmptyDb_def)
  note T = send_counts_missing_unread_entry_from_zero [OF g1 g4 r' miss, of "''m1''", unfolded c]
  from T h ne u own have 1: "\<exists>room' m.
      chatRooms (snd (sendMessage (Some exAlice) (Some ''B'') ''m1'' (exCompose, exRoomDb))) ''A_B'' =
        Some room' \<and>
      unreadCount room' = Some m \<and> m ''B'' = Some 1 \<and> m ''A'' = Some 3"
    by auto
  from T h3 ne u own have 2: "\<exists>room' m.
      chatRooms (snd (sendMessage_v2 (Some exAlice) (Some ''B'') ''m1'' (exCompose, exRoomDb))) ''A_B'' =
        Some room' \<and>
      unreadCount room' = Some m \<and> m ''B'' = Some 1 \<and> m ''A'' = Some 3"
    by auto
  from g1 g4 r miss ne h 1 2 show ?thesis by (intro conjI)
qed

section \<open>Properties of the read-receipt marker\<close>

lemma commitBatch_eq:
  "commitBatch c ids p db =
     (if nextSucceeds db \<and> set ids \<subseteq> set (map id_m (chatMessages db c))
      then (Inr (),
            db\<lparr>chatMessages := (chatMessages db)(c := patchMessages ids p (chatMessages db c)),
               faults := tl (faults db),
               requests := requests db @ [BatchCommit (map (messagePath c) ids)]\<rparr>)
      else (Inl BackendError,
            db\<lparr>faults := tl (faults db),
               requests := requests db @ [BatchCommit (map (messagePath c) ids)]\<rparr>))"
  by (cases "nextSucceeds db") (simp_all add: commitBatch_def roundTrip_def)

lemma patchMessages_ids: "map id_m (patchMessages ids (\<lambda>m. m\<lparr>read := True\<rparr>) ms) = map id_m ms"
  by (simp add: patchMessages_def)

lemma patchMessages_idem:
  "patchMessages ids (\<lambda>m. m\<lparr>read := True\<rparr>) (patchMessages ids (\<lambda>m. m\<lparr>read := True\<rparr>) ms) =
   patchMessages ids (\<lambda>m. m\<lparr>read := True\<rparr>) ms"
  by (simp add: patchMessages_def)

text \<open>
  C4. For a delivered snapshot, let \<open>unreadMessages\<close> be its messages whose sender is not
  the current user and whose read flag is false. When there is none, the store is left as
  it is and no round trip is made. Otherwise exactly one round trip is made, a batch
  commit naming one document per message of \<open>unreadMessages\<close> and no other; its effect on
  the stored messages is all or nothing: either nothing changes or every named document
  gets \<open>read = True\<close> and every other document is unchanged, the latter whenever the call
  is not rejected and the documents exist. Summary documents are not touched. With unique
  identifiers in the snapshot, a message is named in the batch exactly when it qualifies.
\<close>

theorem snapshot_marks_unread_in_one_batch:
  fixes s :: Screen and db :: Firestore and newMessages :: "Message list"
    and currentUser :: "AuthUser option" and chatId :: string
    and unreadMessages :: "Message list" and db' :: Firestore
    and marked :: "string \<Rightarrow> Message list"
  defines "unreadMessages \<equiv>
             filter (\<lambda>msg. Some (senderId msg) \<noteq> currentUid currentUser \<and> \<not> read msg) newMessages"
    and "db' \<equiv> snd (onSnapshotMarkRead currentUser chatId newMessages (s, db))"
    and "marked \<equiv> (chatMessages db)(chatId :=
                     map (\<lambda>m. if id_m m \<in> set (map id_m unreadMessages) then m\<lparr>read := True\<rparr> else m)
                       (chatMessages db chatId))"
  shows "(unreadMessages = [] \<longrightarrow> db' = db) \<and>
         (unreadMessages \<noteq> [] \<longrightarrow>
            requests db' =
              requests db @ [BatchCommit (map (\<lambda>msg. messagePath chatId (id_m msg)) unreadMessages)]) \<and>
         (chatMessages db' = chatMessages db \<or> chatMessages db' = marked) \<and>
         (unreadMessages \<noteq> [] \<and> nextSucceeds db \<and>
          set (map id_m unreadMessages) \<subseteq> set (map id_m (chatMessages db chatId)) \<longrightarrow>
            chatMessages db' = marked) \<and>
         chatRooms db' = chatRooms db \<and>
         (distinct (map id_m newMessages) \<longrightarrow>
            (\<forall>msg \<in> set newMessages.
               id_m msg \<in> set (map id_m unreadMessages) \<longleftrightarrow>
               Some (senderId msg) \<noteq> currentUid currentUser \<and> \<not> read msg))"
proof -
  have 1: "unreadMessages = [] \<longrightarrow> db' = db"
    by (simp add: db'_def unreadMessages_def onSnapshotMarkRead_def Let_def)
  have 2: "unreadMessages \<noteq> [] \<longrightarrow>
            requests db' =
              requests db @ [BatchCommit (map (\<lambda>msg. messagePath chatId (id_m msg)) unreadMessages)]"
    by (simp add: db'_def unreadMessages_def onSnapshotMarkRead_def Let_def commitBatch_eq o_def)
  have 3: "chatMessages db' = chatMessages db \<or> chatMessages db' = marked"
    by (simp add: db'_def unreadMessages_def marked_def onSnapshotMarkRead_def Let_def commitBatch_eq
        patchMessages_def)
  have 4: "unreadMessages \<noteq> [] \<and> nextSucceeds db \<and>
          set (map id_m unreadMessages) \<subseteq> set (map id_m (chatMessages db chatId)) \<longrightarrow>
            chatMessages db' = marked"
    by (simp add: db'_def unreadMessages_def marked_def onSnapshotMarkRead_def Let_def commitBatch_eq
        patchMessages_def)
  have 5: "chatRooms db' = chatRooms db"
    by (simp add: db'_def onSnapshotMarkRead_def Let_def commitBatch_eq)
  have 6: "distinct (map id_m newMessages) \<longrightarrow>
            (\<forall>msg \<in> set newMessages.
               id_m msg \<in> set (map id_m unreadMessages) \<longleftrightarrow>
               Some (senderId msg) \<noteq> currentUid currentUser \<and> \<not> read msg)"
  proof (intro impI ballI)
    fix msg assume d: "distinct (map id_m newMessages)" and m: "msg \<in> set newMessages"
    show "id_m msg \<in> set (map id_m unreadMessages) \<longleftrightarrow>
               Some (senderId msg) \<noteq> currentUid currentUser \<and> \<not> read msg"
    proof
      assume "id_m msg \<in> set (map id_m unreadMessages)"
      then obtain m' where m': "m' \<in> set unreadMessages" and e: "id_m m' = id_m msg" by auto
      from m' have "m' \<in> set newMessages" by (simp add: unreadMessages_def)
      with d m e have "m' = msg" by (meson distinct_map inj_onD)
      with m' show "Some (senderId msg) \<noteq> currentUid currentUser \<and> \<not> read msg"
        by (simp add: unreadMessages_def)
    next
      assume "Some (senderId msg) \<noteq> currentUid currentUser \<and> \<not> read msg"
      with m have "msg \<in> set unreadMessages" by (simp add: unreadMessages_def)
      then show "id_m msg \<in> set (map id_m unreadMessages)" by simp
    qed
  qed
  show ?thesis by (intro conjI) (rule 1 2 3 4 5 6)+
qed


lemma healthy_next: "True \<notin> set (faults db) \<Longrightarrow> nextSucceeds db"
  by (cases "faults db") (auto simp: nextSucceeds_def)

lemma healthy_tl: "True \<notin> set fs \<Longrightarrow> True \<notin> set (tl fs)"
  by (cases fs) auto

lemma onSnapshotMarkRead_docs:
  assumes h: "True \<notin> set (faults db)"
  shows "fst (onSnapshotMarkRead cu c snap (s, db)) = s\<lparr>messages := snap, loading := False\<rparr>"
    and "chatRooms (snd (onSnapshotMarkRead cu c snap (s, db))) = chatRooms db"
    and "chatMessages (snd (onSnapshotMarkRead cu c snap (s, db))) =
           (if filter (\<lambda>msg. Some (senderId msg) \<noteq> currentUid cu \<and> \<not> read msg) snap \<noteq> [] \<and>
               set (map id_m (filter (\<lambda>msg. Some (senderId msg) \<noteq> currentUid cu \<and> \<not> read msg) snap))
                 \<subseteq> set (map id_m (chatMessages db c))
            then (chatMessages db)(c :=
                   patchMessages
                     (map id_m (filter (\<lambda>msg. Some (senderId msg) \<noteq> currentUid cu \<and> \<not> read msg) snap))
                     (\<lambda>m. m\<lparr>read := True\<rparr>) (chatMessages db c))
            else chatMessages db)"
    and "True \<notin> set (faults (snd (onSnapshotMarkRead cu c snap (s, db))))"
  using h healthy_next [OF h] healthy_tl [OF h]
  by (simp_all add: onSnapshotMarkRead_def Let_def commitBatch_eq del: set_map)

lemma markMessagesAsRead_chatMessages:
  "chatMessages (markMessagesAsRead cu uId db) = chatMessages db"
  by (simp add: markMessagesAsRead_def Let_def await_def getDoc_room_def updateDoc_room_def
      roundTrip_def resolved_def split: option.splits bool.splits)

lemma markMessagesAsRead_docs:
  assumes h: "True \<notin> set (faults db)" and g: "uid user \<noteq> []" "uId \<noteq> []"
  shows "chatRooms (markMessagesAsRead (Some user) (Some uId) db) =
           (case chatRooms db (chatIdOf (Some (uid user)) (Some uId)) of
              None \<Rightarrow> chatRooms db
            | Some room \<Rightarrow>
                if summaryUnread uId room
                then (chatRooms db)(chatIdOf (Some (uid user)) (Some uId) \<mapsto>
                       summaryRead (uid user) room)
                else chatRooms db)"
    and "True \<notin> set (faults (markMessagesAsRead (Some user) (Some uId) db))"
proof -
  note n1 = healthy_next [OF h]
  note t1 = healthy_tl [OF h]
  have n2: "nextSucceeds (db\<lparr>faults := tl (faults db), requests := rq\<rparr>)" for rq
    using t1 by (intro healthy_next) simp
  note t2 = healthy_tl [OF t1]
  show "chatRooms (markMessagesAsRead (Some user) (Some uId) db) =
           (case chatRooms db (chatIdOf (Some (uid user)) (Some uId)) of
              None \<Rightarrow> chatRooms db
            | Some room \<Rightarrow>
                if summaryUnread uId room
                then (chatRooms db)(chatIdOf (Some (uid user)) (Some uId) \<mapsto>
                       summaryRead (uid user) room)
                else chatRooms db)"
    using g n1 n2
    by (simp add: markMessagesAsRead_def Let_def await_def getDoc_room_def updateDoc_room_def
        roundTrip_def resolved_def truthy_def currentUid_def keyOf_def summaryUnread_def
        summaryRead_def split: option.splits)
  show "True \<notin> set (faults (markMessagesAsRead (Some user) (Some uId) db))"
    using g n1 n2 t1 t2
    by (simp add: markMessagesAsRead_def Let_def await_def getDoc_room_def updateDoc_room_def
        roundTrip_def resolved_def truthy_def currentUid_def split: option.splits)
qed

lemma summaryRead_settled: "\<not> summaryUnread uId (summaryRead u room)"
  by (cases "lastMessage room") (simp_all add: summaryUnread_def summaryRead_def)






text \<open>
  C6. When no round trip is rejected, running the read marking (the snapshot callback
  followed by \<^verbatim>\<open>markMessagesAsRead\<close>) a second time on the same snapshot leaves the screen
  state, the summary documents and the message documents as the first run left them.
\<close>

theorem read_marking_idempotent:
  assumes h: "True \<notin> set (faults db)"
  shows "fst (readMarking cu uId snap (readMarking cu uId snap (s, db))) =
           fst (readMarking cu uId snap (s, db)) \<and>
         chatRooms (snd (readMarking cu uId snap (readMarking cu uId snap (s, db)))) =
           chatRooms (snd (readMarking cu uId snap (s, db))) \<and>
         chatMessages (snd (readMarking cu uId snap (readMarking cu uId snap (s, db)))) =
           chatMessages (snd (readMarking cu uId snap (s, db)))"
proof (cases "truthy (currentUid cu) \<and> truthy uId")
  case False
  then show ?thesis by (auto simp: readMarking_def markMessagesAsRead_def)
next
  case True
  then obtain user u where cu: "cu = Some user" and uId: "uId = Some u"
    and g: "uid user \<noteq> []" "u \<noteq> []"
    by (auto simp: truthy_def currentUid_def split: option.splits)
  let ?c = "chatIdOf (Some (uid user)) (Some u)"
  let ?f = "onSnapshotMarkRead (Some user) ?c snap"
  let ?g = "markMessagesAsRead (Some user) (Some u)"
  let ?ids = "map id_m (filter (\<lambda>msg. Some (senderId msg) \<noteq> currentUid (Some user) \<and> \<not> read msg) snap)"
  have rm: "readMarking cu uId snap st = (fst (?f st), ?g (snd (?f st)))" for st
    using g by (simp add: readMarking_def Let_def cu uId truthy_def currentUid_def)
  \<comment> \<open>first application\<close>
  note d1 = onSnapshotMarkRead_docs [OF h, of "Some user" ?c snap s]
  note e1 = markMessagesAsRead_docs [OF d1(4) g]
  let ?db1 = "?g (snd (?f (s, db)))"
  let ?s1 = "fst (?f (s, db))"
  have once: "readMarking cu uId snap (s, db) = (?s1, ?db1)" by (rule rm)
  \<comment> \<open>second application\<close>
  note d2 = onSnapshotMarkRead_docs [OF e1(2), of "Some user" ?c snap ?s1]
  note e2 = markMessagesAsRead_docs [OF d2(4) g]
  have twice: "readMarking cu uId snap (readMarking cu uId snap (s, db)) =
               (fst (?f (?s1, ?db1)), ?g (snd (?f (?s1, ?db1))))"
    unfolding once by (rule rm)
  have scr: "fst (?f (?s1, ?db1)) = ?s1" by (simp add: onSnapshotMarkRead_def Let_def)
  have m1: "chatMessages ?db1 = chatMessages (snd (?f (s, db)))"
    by (rule markMessagesAsRead_chatMessages)
  have msgs: "chatMessages (?g (snd (?f (?s1, ?db1)))) = chatMessages ?db1"
    unfolding markMessagesAsRead_chatMessages d2(3) unfolding m1 d1(3)
    by (simp add: patchMessages_ids patchMessages_idem del: set_map)
  have rooms: "chatRooms (?g (snd (?f (?s1, ?db1)))) = chatRooms ?db1"
    unfolding e2(1) d2(2) unfolding e1(1) d1(2)
    by (simp add: summaryRead_settled split: option.splits)
  show ?thesis using scr msgs rooms by (simp add: rm)
qed

theorem snapshot_marks_unread_in_one_batch_witness:
  "filter (\<lambda>msg. Some (senderId msg) \<noteq> currentUid (Some exBob) \<and> \<not> read msg) exSentMsgs \<noteq> [] \<and>
   nextSucceeds exSentDb \<and> distinct (map id_m exSentMsgs) \<and>
   requests (snd (onSnapshotMarkRead (Some exBob) ''A_B'' exSentMsgs (exScreen, exSentDb))) =
     [BatchCommit [[''chatRooms'', ''A_B'', ''messages'', ''m1''],
                   [''chatRooms'', ''A_B'', ''messages'', ''m2'']]] \<and>
   chatMessages (snd (onSnapshotMarkRead (Some exBob) ''A_B'' exSentMsgs (exScreen, exSentDb))) ''A_B'' =
     [exMsg ''m0'' ''hey'' ''B'' 5 False, exMsg ''m1'' ''hello'' ''A'' 10 True,
      exMsg ''m2'' ''see you'' ''A'' 20 True] \<and>
   filter (\<lambda>msg. Some (senderId msg) \<noteq> currentUid (Some exBob) \<and> \<not> read msg)
     [exMsg ''m0'' ''hey'' ''B'' 5 False] = [] \<and>
   snd (onSnapshotMarkRead (Some exBob) ''A_B'' [exMsg ''m0'' ''hey'' ''B'' 5 False]
          (exScreen, exSentDb)) = exSentDb"
proof -
  let ?q = "filter (\<lambda>msg. Some (senderId msg) \<noteq> currentUid (Some exBob) \<and> \<not> read msg) exSentMsgs"
  have q: "?q = [exMsg ''m1'' ''hello'' ''A'' 10 False, exMsg ''m2'' ''see you'' ''A'' 20 False]"
    by (simp add: exSentMsgs_def exMsg_def exBob_def currentUid_def)
  have ne: "?q \<noteq> []" unfolding q by simp
  have ok: "nextSucceeds exSentDb" by (simp add: nextSucceeds_def exSentDb_def)
  have d: "distinct (map id_m exSentMsgs)" by (simp add: exSentMsgs_def exMsg_def)
  have sub: "set (map id_m ?q) \<subseteq> set (map id_m (chatMessages exSentDb ''A_B''))"
    unfolding q by (simp add: exSentDb_def exSentMsgs_def exMsg_def)
  have own: "filter (\<lambda>msg. Some (senderId msg) \<noteq> currentUid (Some exBob) \<and> \<not> read msg)
     [exMsg ''m0'' ''hey'' ''B'' 5 False] = []"
    by (simp add: exMsg_def exBob_def currentUid_def)
  note T = snapshot_marks_unread_in_one_batch
    [where currentUser = "Some exBob" and newMessages = exSentMsgs and db = exSentDb
       and chatId = "''A_B''" and s = exScreen]
  note U = snapshot_marks_unread_in_one_batch
    [where currentUser = "Some exBob" and newMessages = "[exMsg ''m0'' ''hey'' ''B'' 5 False]"
       and db = exSentDb and chatId = "''A_B''" and s = exScreen]
  from T ne have 1:
    "requests (snd (onSnapshotMarkRead (Some exBob) ''A_B'' exSentMsgs (exScreen, exSentDb))) =
     requests exSentDb @ [BatchCommit (map (\<lambda>msg. messagePath ''A_B'' (id_m msg)) ?q)]"
    by blast
  from T ne ok sub have 2:
    "chatMessages (snd (onSnapshotMarkRead (Some exBob) ''A_B'' exSentMsgs (exScreen, exSentDb))) =
     (chatMessages exSentDb)(''A_B'' :=
        map (\<lambda>m. if id_m m \<in> set (map id_m ?q) then m\<lparr>read := True\<rparr> else m)
          (chatMessages exSentDb ''A_B''))"
    by blast
  from U own have 3:
    "snd (onSnapshotMarkRead (Some exBob) ''A_B'' [exMsg ''m0'' ''hey'' ''B'' 5 False]
          (exScreen, exSentDb)) = exSentDb"
    by blast
  have req: "requests (snd (onSnapshotMarkRead (Some exBob) ''A_B'' exSentMsgs (exScreen, exSentDb))) =
     [BatchCommit [[''chatRooms'', ''A_B'', ''messages'', ''m1''],
                   [''chatRooms'', ''A_B'', ''messages'', ''m2'']]]"
    unfolding 1 q by (simp add: exSentDb_def messagePath_def exMsg_def)
  have marked: "chatMessages (snd (onSnapshotMarkRead (Some exBob) ''A_B'' exSentMsgs (exScreen, exSentDb))) ''A_B'' =
     [exMsg ''m0'' ''hey'' ''B'' 5 False, exMsg ''m1'' ''hello'' ''A'' 10 True,
      exMsg ''m2'' ''see you'' ''A'' 20 True]"
    unfolding 2 q by (simp add: exSentDb_def exSentMsgs_def exMsg_def)
  from ne ok d req marked own 3 show ?thesis by (intro conjI)
qed



theorem read_marking_idempotent_witness:
  "True \<notin> set (faults exSentDb) \<and>
   fst (readMarking (Some exBob) (Some ''A'') exSentMsgs
          (readMarking (Some exBob) (Some ''A'') exSentMsgs (exScreen, exSentDb))) =
     fst (readMarking (Some exBob) (Some ''A'') exSentMsgs (exScreen, exSentDb)) \<and>
   chatRooms (snd (readMarking (Some exBob) (Some ''A'') exSentMsgs
          (readMarking (Some exBob) (Some ''A'') exSentMsgs (exScreen, exSentDb)))) =
     chatRooms (snd (readMarking (Some exBob) (Some ''A'') exSentMsgs (exScreen, exSentDb))) \<and>
   chatMessages (snd (readMarking (Some exBob) (Some ''A'') exSentMsgs
          (readMarking (Some exBob) (Some ''A'') exSentMsgs (exScreen, exSentDb)))) =
     chatMessages (snd (readMarking (Some exBob) (Some ''A'') exSentMsgs (exScreen, exSentDb)))"
proof -
  have h: "True \<notin> set (faults exSentDb)" by (simp add: exSentDb_def)
  from read_marking_idempotent [OF h, of "Some exBob" "Some ''A''" exSentMsgs exScreen] h
  show ?thesis by (intro conjI) simp_all
qed

section \<open>Properties of the reaction update\<close>





lemma notin_remove1: "count_list users u \<le> 1 \<Longrightarrow> u \<notin> set (remove1 u users)"
proof (induction users)
  case Nil
  show ?case by simp
next
  case (Cons x xs)
  show ?case
  proof (cases "x = u")
    case True
    with Cons.prems have "count_list xs u = 0" by simp
    with True show ?thesis by (simp add: count_list_0_iff)
  next
    case False
    with Cons show ?thesis by simp
  qed
qed





















end
